theory Spec2Isabelle
  imports Complex_Main
begin

section \<open>Python values and failures\<close>

text \<open>
  Every \<^verbatim>\<open>raise\<close> of the two modules, and every failure of a subscript or of a
  division that the code can run into, is a value of \<open>error\<close>. A function that can
  fail while it has already changed the program object returns the failure next to the
  state it leaves behind (\<open>error option \<times> 's\<close>, \<open>None\<close> for a normal return).
  \<open>Unmodelled\<close> is not an exception of Python: it marks an operand whose treatment by
  the symbolic library the sources do not show and the model does not follow.
\<close>

datatype error =
    ValueError string
  | RuntimeError string
  | AttributeError string
  | IndexError string
  | TypeError string
  | ZeroDivisionError string
  | Unmodelled string

text \<open>The payload of a constraint (\<^verbatim>\<open>elem[2]\<close>): numbers and tuples of payloads.\<close>

datatype pyval = PInt int | PFloat real | PTuple "pyval list"

definition py_index :: "'a list \<Rightarrow> int \<Rightarrow> error + 'a" where
  \<comment> \<open>\<^verbatim>\<open>xs[i]\<close> on a list or tuple: a negative index counts from the end.\<close>
  "py_index xs i =
     (if 0 \<le> i \<and> i < int (length xs) then Inr (xs ! nat i)
      else if i < 0 \<and> - int (length xs) \<le> i then Inr (xs ! nat (int (length xs) + i))
      else Inl (IndexError ''index out of range''))"

definition py_slice :: "'a list \<Rightarrow> int \<Rightarrow> int \<Rightarrow> 'a list" where
  \<comment> \<open>\<^verbatim>\<open>xs[a:b]\<close> on a list: both ends are clamped, a negative end counts from the end.\<close>
  "py_slice xs a b =
     (let n = int (length xs);
          lo = (if a < 0 then max (n + a) 0 else min a n);
          hi = (if b < 0 then max (n + b) 0 else min b n)
      in take (nat (hi - lo)) (drop (nat lo) xs))"

definition py_getitem :: "pyval \<Rightarrow> int \<Rightarrow> error + pyval" where
  \<comment> \<open>\<^verbatim>\<open>policy[i]\<close>: only a tuple can be subscripted.\<close>
  "py_getitem p i =
     (case p of
        PTuple xs \<Rightarrow> py_index xs i
      | _ \<Rightarrow> Inl (TypeError ''object is not subscriptable''))"

definition isinstance_tuple :: "pyval \<Rightarrow> bool" where
  "isinstance_tuple p = (case p of PTuple _ \<Rightarrow> True | _ \<Rightarrow> False)"

fun for_each :: "('a \<Rightarrow> 's \<Rightarrow> error option \<times> 's) \<Rightarrow> 'a list \<Rightarrow> 's \<Rightarrow> error option \<times> 's" where
  \<comment> \<open>A \<^verbatim>\<open>for\<close> loop whose body changes the state and may raise: the first failure
      ends the loop and keeps the state reached so far.\<close>
  "for_each body [] s = (None, s)"
| "for_each body (x # xs) s =
     (case body x s of
        (None, s') \<Rightarrow> for_each body xs s'
      | (Some e, s') \<Rightarrow> (Some e, s'))"

definition and_then :: "error option \<times> 's \<Rightarrow> ('s \<Rightarrow> error option \<times> 's) \<Rightarrow> error option \<times> 's" where
  \<comment> \<open>Two statements in sequence: the second runs only when the first returned.\<close>
  "and_then r f = (case r of (None, s) \<Rightarrow> f s | (Some e, s) \<Rightarrow> (Some e, s))"

section \<open>Symbolic expressions\<close>

text \<open>
  The symbolic engine (CasADi) is an external library. A symbolic column vector is the
  list of its scalar entries, so that the number of rows of a vector is the length of the
  list and \<^verbatim>\<open>vertcat\<close> is concatenation. The scalar entries record how they were
  built: an entry of a declared symbol, an output of the discrete transition, a coordinate
  of a marker, a difference, a product with a number, a quotient by an integer.
\<close>

datatype symname = V_phase nat | time_phase nat

datatype mx =
    Sym symname nat
  | XF "mx list" "mx list" nat
  | Marker "mx list" pyval nat
  | Minus mx mx
  | Times pyval mx
  | Div mx int

definition MX_sym :: "symname \<Rightarrow> nat \<Rightarrow> mx list" where
  \<comment> \<open>\<^verbatim>\<open>MX.sym(name, n)\<close>: a fresh column of \<open>n\<close> entries.\<close>
  "MX_sym name n = map (Sym name) [0..<n]"

definition vertcat :: "mx list \<Rightarrow> mx list \<Rightarrow> mx list" where
  "vertcat a b = a @ b"

definition nz_slice :: "mx list \<Rightarrow> nat \<Rightarrow> nat \<Rightarrow> mx list" where
  \<comment> \<open>\<^verbatim>\<open>V.nz[a:b]\<close>, the entries \<open>a\<close> to \<open>b - 1\<close>.\<close>
  "nz_slice v a b = take (b - a) (drop a v)"

definition mx_slice_to :: "mx list \<Rightarrow> nat \<Rightarrow> error + mx list" where
  \<comment> \<open>\<^verbatim>\<open>x[:n]\<close> on a symbolic vector: a slice past the end is refused.\<close>
  "mx_slice_to x n =
     (if n \<le> length x then Inr (take n x)
      else Inl (RuntimeError ''slice out of bounds''))"

definition is_number :: "pyval \<Rightarrow> bool" where
  \<comment> \<open>a Python int or float\<close>
  "is_number c = (case c of PTuple _ \<Rightarrow> False | _ \<Rightarrow> True)"

definition mx_getitem :: "mx list \<Rightarrow> pyval \<Rightarrow> error + mx" where
  \<comment> \<open>\<^verbatim>\<open>v[i]\<close> on a symbolic vector: an integer index, negative from the end; a float
      that is a whole number is the index of that number (\<^verbatim>\<open>v[1.0]\<close> is \<^verbatim>\<open>v[1]\<close>).
      Other floats and tuples as an index are not followed.\<close>
  "mx_getitem v i =
     (case i of
        PInt k \<Rightarrow>
          (case py_index v k of
             Inl _ \<Rightarrow> Inl (RuntimeError ''index out of bounds'')
           | Inr e \<Rightarrow> Inr e)
      | PFloat r \<Rightarrow>
          (if of_int \<lfloor>r\<rfloor> = r
           then (case py_index v \<lfloor>r\<rfloor> of
                   Inl _ \<Rightarrow> Inl (RuntimeError ''index out of bounds'')
                 | Inr e \<Rightarrow> Inr e)
           else Inl (Unmodelled ''a float index that is not a whole number''))
      | PTuple _ \<Rightarrow> Inl (Unmodelled ''a tuple as an index''))"

definition mx_minus :: "mx list \<Rightarrow> mx list \<Rightarrow> error + mx list" where
  \<comment> \<open>\<^verbatim>\<open>a - b\<close>: entry by entry; a single entry is spread over the other operand;
      any other pair of sizes is refused.\<close>
  "mx_minus a b =
     (if length a = length b then Inr (map2 Minus a b)
      else if length a = 1 then Inr (map (Minus (hd a)) b)
      else if length b = 1 then Inr (map (\<lambda>x. Minus x (hd b)) a)
      else Inl (RuntimeError ''dimension mismatch''))"

definition mx_times :: "pyval \<Rightarrow> mx \<Rightarrow> error + mx list" where
  \<comment> \<open>\<^verbatim>\<open>c * e\<close> for a scalar entry \<open>e\<close>: with a Python number one row; with a tuple of
      numbers the library makes the tuple a column constant, and the product has one row
      for each number of the tuple. An empty tuple and a tuple of tuples are not
      followed.\<close>
  "mx_times c e =
     (case c of
        PTuple cs \<Rightarrow>
          (if cs \<noteq> [] \<and> list_all is_number cs then Inr (map (\<lambda>ci. Times ci e) cs)
           else Inl (Unmodelled ''an empty or nested tuple as a factor''))
      | _ \<Rightarrow> Inr [Times c e])"

text \<open>
  Modelled from the spec: the discrete transition built by the integrator module
  (\<^verbatim>\<open>integrator.RK4\<close>, and CasADi's own integrators), which is not among the source
  files. The spec gives it as \<^verbatim>\<open>step(x_k, u_k) -> x_{k+1}\<close>: its result \<^verbatim>\<open>"xf"\<close> is a
  state vector, with as many rows as \<^verbatim>\<open>x0\<close>.
\<close>

definition dynamics_call :: "mx list \<Rightarrow> mx list \<Rightarrow> mx list" where
  "dynamics_call x0 p = map (XF x0 p) [0..<length x0]"

text \<open>
  Modelled from the spec: the marker evaluator of the rigid-body model,
  \<^verbatim>\<open>marker_position(q, marker_index) -> (x, y, z)\<close>, an external collaborator: a column
  of three coordinates.
\<close>

definition marker :: "mx list \<Rightarrow> pyval \<Rightarrow> mx list" where
  "marker q idx = [Marker q idx 0, Marker q idx 1, Marker q idx 2]"

section \<open>The data model\<close>

text \<open>
  A phase duration is a Python number or, when the time is optimised, a symbolic scalar
  (\<^verbatim>\<open>isinstance(nlp["tf"], MX)\<close>). Python floats are read as real numbers.
\<close>

datatype time_value = Num real | Symbolic mx

definition isinstance_MX :: "time_value \<Rightarrow> bool" where
  "isinstance_MX t = (case t of Symbolic _ \<Rightarrow> True | Num _ \<Rightarrow> False)"

text \<open>The members of \<^verbatim>\<open>OdeSolver\<close> that the source names, and what each one builds.\<close>

datatype OdeSolver = RK | COLLOCATION | CVODES

datatype integrator = RK4 | integrator_collocation | integrator_cvodes

text \<open>
  \<^verbatim>\<open>Constraint.Type\<close> and \<^verbatim>\<open>Constraint.Instant\<close>. The member \<^verbatim>\<open>ALL\<close> is written
  \<open>ALL_NODES\<close>, since \<open>ALL\<close> is the quantifier of HOL.
\<close>

datatype Type =
    MARKERS_TO_PAIR
  | PROPORTIONAL_Q
  | PROPORTIONAL_CONTROL
  | CONTACT_FORCE_GREATER_THAN

datatype Instant = START | MID | INTERMEDIATES | END | ALL_NODES

text \<open>
  The coordinate mapping is an object of the mapping module, which is not among the
  source files; the code reads its \<^verbatim>\<open>nb_reduced\<close> and calls its \<^verbatim>\<open>expand\<close>. Both are
  taken as they come: every theorem below holds for any \<open>expand\<close>.
\<close>

record dof_mapping =
  nb_reduced :: nat
  expand :: "mx list \<Rightarrow> mx list"

text \<open>
  A phase is the dictionary \<^verbatim>\<open>nlp\<close> (\<^verbatim>\<open>self.nlp = [{} for _ in range(self.nb_phases)]\<close>),
  here with the keys the two modules read and write. The sizes \<^verbatim>\<open>nx\<close>, \<^verbatim>\<open>nu\<close> and
  the number of shooting intervals \<^verbatim>\<open>ns\<close> are counts, hence natural numbers. A
  constraint is the tuple \<^verbatim>\<open>(type, instant, policy)\<close> that \<^verbatim>\<open>add_constraints\<close> reads as
  \<^verbatim>\<open>elem[0]\<close>, \<^verbatim>\<open>elem[1]\<close>, \<^verbatim>\<open>elem[2]\<close>.
\<close>

record nlp =
  nx :: nat
  nu :: nat
  ns :: nat
  tf :: time_value
  dt :: "time_value option"
  ode_solver :: OdeSolver
  dynamics :: "integrator option"
  X :: "mx list list"
  U :: "mx list list"
  constraints :: "(Type \<times> Instant \<times> pyval) list"
  dof_mapping :: dof_mapping

text \<open>
  The program object, with the attributes the two modules build: the phases, the flat
  decision vector \<^verbatim>\<open>V\<close>, the free time parameters, the constraint vector \<^verbatim>\<open>g\<close> and its
  bounds \<^verbatim>\<open>g_bounds.min\<close> and \<^verbatim>\<open>g_bounds.max\<close>. The bounds and the initial guess of
  \<^verbatim>\<open>V\<close> are objects of the path-conditions module, which is not among the source files;
  they are left out.
\<close>

record ocp =
  nlp :: "nlp list"
  V :: "mx list"
  param_to_optimize_time :: "mx list"
  g :: "mx list"
  g_bounds_min :: "int list"
  g_bounds_max :: "int list"
  is_cyclic_constraint :: bool

section \<open>The module \<^verbatim>\<open>optimal_control_program\<close>\<close>

subsection \<open>The step length\<close>

definition truediv :: "time_value \<Rightarrow> int \<Rightarrow> error + time_value" where
  \<comment> \<open>\<^verbatim>\<open>t / d\<close>: a Python number divided by zero raises; a symbolic duration gives a
      symbolic quotient.\<close>
  "truediv t d =
     (case t of
        Num r \<Rightarrow>
          (if d = 0 then Inl (ZeroDivisionError ''division by zero'')
           else Inr (Num (r / real_of_int d)))
      | Symbolic e \<Rightarrow> Inr (Symbolic (Div e d)))"

definition phase_dt :: "nlp \<Rightarrow> error + time_value" where
  \<comment> \<open>\<^verbatim>\<open>self.nlp[i]["tf"] / max(self.nlp[i]["ns"], 1)\<close>\<close>
  "phase_dt p = truediv (tf p) (max (int (ns p)) 1)"

fun dt_list :: "nlp list \<Rightarrow> error + time_value list" where
  \<comment> \<open>the list comprehension over the phases\<close>
  "dt_list [] = Inr []"
| "dt_list (p # ps) =
     (case phase_dt p of
        Inl e \<Rightarrow> Inl e
      | Inr d \<Rightarrow> (case dt_list ps of Inl e \<Rightarrow> Inl e | Inr ds \<Rightarrow> Inr (d # ds)))"

definition add_dt_to_nlp :: "time_value list \<Rightarrow> ocp \<Rightarrow> error option \<times> ocp" where
  \<comment> \<open>\<^verbatim>\<open>__add_to_nlp("dt", [...], False)\<close>, the branch of a list parameter\<close>
  "add_dt_to_nlp param ocp =
     (if length param \<noteq> length (nlp ocp)
      then (Some (RuntimeError ''dt size does not correspond to the number of phases''), ocp)
      else (None, ocp\<lparr>nlp := map2 (\<lambda>p d. p\<lparr>dt := Some d\<rparr>) (nlp ocp) param\<rparr>))"

definition define_dt :: "ocp \<Rightarrow> error option \<times> ocp" where
  "define_dt ocp =
     (case dt_list (nlp ocp) of
        Inl e \<Rightarrow> (Some e, ocp)
      | Inr ds \<Rightarrow> add_dt_to_nlp ds ocp)"

subsection \<open>The decision vector\<close>

definition shooting_node :: "mx list \<Rightarrow> nat \<Rightarrow> nat \<Rightarrow> nat \<Rightarrow>
    mx list list \<times> mx list list \<times> nat \<Rightarrow> mx list list \<times> mx list list \<times> nat" where
  \<comment> \<open>the body of the loop over \<open>k\<close>, on the lists \<^verbatim>\<open>X\<close>, \<^verbatim>\<open>U\<close> and \<^verbatim>\<open>offset\<close>\<close>
  "shooting_node Vsym n_x n_u k s =
     (case s of (Xs, Us, offset) \<Rightarrow>
        (Xs @ [nz_slice Vsym offset (offset + n_x)],
         Us @ [nz_slice Vsym (offset + n_x) (offset + n_x + n_u)],
         offset + n_x + n_u))"

definition define_multiple_shooting_nodes_per_phase :: "nat \<Rightarrow> ocp \<Rightarrow> ocp" where
  \<comment> \<open>\<^verbatim>\<open>__define_multiple_shooting_nodes_per_phase(self.nlp[idx_phase], idx_phase)\<close>\<close>
  "define_multiple_shooting_nodes_per_phase idx_phase ocp =
     (let p = nlp ocp ! idx_phase;
          nV = nx p * (ns p + 1) + nu p * ns p;
          Vsym = MX_sym (V_phase idx_phase) nV
      in case fold (shooting_node Vsym (nx p) (nu p)) [0..<ns p] ([], [], 0) of
           (Xs, Us, offset) \<Rightarrow>
             ocp\<lparr>nlp := (nlp ocp)[idx_phase :=
                        p\<lparr>X := Xs @ [nz_slice Vsym offset (offset + nx p)], U := Us\<rparr>],
                 V := vertcat (V ocp) Vsym\<rparr>)"

definition variable_time :: "nlp \<Rightarrow> ocp \<times> mx list \<Rightarrow> ocp \<times> mx list" where
  \<comment> \<open>the body of the loop of \<^verbatim>\<open>__define_variable_time\<close>, on \<^verbatim>\<open>self\<close> and \<^verbatim>\<open>P\<close>\<close>
  "variable_time p s =
     (case s of (ocp, P) \<Rightarrow>
        (case tf p of
           Symbolic t \<Rightarrow>
             (let ocp' = ocp\<lparr>V := vertcat (V ocp) [t]\<rparr>
              in (ocp', P @ [last (V ocp')]))
         | Num _ \<Rightarrow> (ocp, P)))"

definition define_variable_time :: "ocp \<Rightarrow> ocp" where
  "define_variable_time ocp =
     (case fold variable_time (nlp ocp) (ocp, []) of
        (ocp', P) \<Rightarrow> ocp'\<lparr>param_to_optimize_time := P\<rparr>)"

subsection \<open>The dynamics of a phase\<close>

definition prepare_dynamics :: "nlp \<Rightarrow> error + nlp" where
  \<comment> \<open>\<^verbatim>\<open>__prepare_dynamics\<close>: which integrator \<^verbatim>\<open>nlp["dynamics"]\<close> becomes\<close>
  "prepare_dynamics p =
     (case ode_solver p of
        RK \<Rightarrow> Inr (p\<lparr>dynamics := Some RK4\<rparr>)
      | COLLOCATION \<Rightarrow>
          (if isinstance_MX (tf p)
           then Inl (RuntimeError
                  ''OdeSolver.COLLOCATION cannot be used while optimizing the time parameter'')
           else Inr (p\<lparr>dynamics := Some integrator_collocation\<rparr>))
      | CVODES \<Rightarrow>
          (if isinstance_MX (tf p)
           then Inl (RuntimeError
                  ''OdeSolver.CVODES cannot be used while optimizing the time parameter'')
           else Inr (p\<lparr>dynamics := Some integrator_cvodes\<rparr>)))"

definition check_and_prepare :: "nat \<Rightarrow> ocp \<Rightarrow> error option \<times> ocp" where
  \<comment> \<open>the body of the loop of \<^verbatim>\<open>__init__\<close> that guards the sizes and prepares the
      dynamics of phase \<open>i\<close>\<close>
  "check_and_prepare i ocp =
     (let ps = nlp ocp
      in if nx (ps ! 0) \<noteq> nx (ps ! i) \<or> nu (ps ! 0) \<noteq> nu (ps ! i)
         then (Some (RuntimeError ''Dynamics with different nx or nu is not supported yet''),
               ocp)
         else (case prepare_dynamics (ps ! i) of
                 Inl e \<Rightarrow> (Some e, ocp)
               | Inr p' \<Rightarrow> (None, ocp\<lparr>nlp := ps[i := p']\<rparr>)))"

definition define_dynamics :: "ocp \<Rightarrow> error option \<times> ocp" where
  \<comment> \<open>\<^verbatim>\<open>MX.sym("x", self.nlp[0]["nx"], 1)\<close> reads the first phase, then the loop runs\<close>
  "define_dynamics ocp =
     (case py_index (nlp ocp) 0 of
        Inl e \<Rightarrow> (Some e, ocp)
      | Inr _ \<Rightarrow> for_each check_and_prepare [0..<length (nlp ocp)] ocp)"

section \<open>The module \<^verbatim>\<open>constraints\<close>\<close>

definition then_with :: "error + 'a \<Rightarrow> ('a \<Rightarrow> error + 'b) \<Rightarrow> error + 'b" where
  \<comment> \<open>evaluate, and go on with the value unless the evaluation raised\<close>
  "then_with r f = (case r of Inl e \<Rightarrow> Inl e | Inr v \<Rightarrow> f v)"

definition append_bound :: "ocp \<Rightarrow> ocp" where
  \<comment> \<open>\<^verbatim>\<open>ocp.g_bounds.min.append(0); ocp.g_bounds.max.append(0)\<close>\<close>
  "append_bound ocp =
     ocp\<lparr>g_bounds_min := g_bounds_min ocp @ [0], g_bounds_max := g_bounds_max ocp @ [0]\<rparr>"

definition append_bounds :: "nat \<Rightarrow> ocp \<Rightarrow> ocp" where
  \<comment> \<open>\<^verbatim>\<open>for _ in range(n):\<close> one bound pair each time\<close>
  "append_bounds n ocp = fold (\<lambda>_. append_bound) [0..<n] ocp"

definition emit :: "error + mx list \<Rightarrow> nat \<Rightarrow> ocp \<Rightarrow> error option \<times> ocp" where
  \<comment> \<open>\<^verbatim>\<open>ocp.g = vertcat(ocp.g, rows)\<close> followed by \<open>n\<close> bound pairs; when the
      expression \<open>rows\<close> raises, nothing is appended\<close>
  "emit rows n ocp =
     (case rows of
        Inl e \<Rightarrow> (Some e, ocp)
      | Inr r \<Rightarrow> (None, append_bounds n (ocp\<lparr>g := vertcat (g ocp) r\<rparr>)))"

subsection \<open>Selecting the nodes\<close>

text \<open>
  \<^verbatim>\<open>nlp.ns\<close> in the \<^verbatim>\<open>MID\<close> branch is an attribute access. A phase is a plain dictionary
  (it is created as \<^verbatim>\<open>{}\<close> and read as \<^verbatim>\<open>nlp["ns"]\<close> everywhere else), and a dictionary
  has no attribute \<^verbatim>\<open>ns\<close>: the access raises \<^verbatim>\<open>AttributeError\<close>.
\<close>

definition getattr_ns :: "nlp \<Rightarrow> error + nat" where
  "getattr_ns p = Inl (AttributeError ''dict object has no attribute ns'')"

definition select_nodes :: "nlp \<Rightarrow> Instant \<Rightarrow> error + (mx list list \<times> mx list list)" where
  \<comment> \<open>the first \<^verbatim>\<open>if\<close> chain of the loop of \<^verbatim>\<open>add_constraints\<close>: the lists \<^verbatim>\<open>x\<close>, \<^verbatim>\<open>u\<close>\<close>
  "select_nodes p inst =
     (case inst of
        START \<Rightarrow>
          then_with (py_index (X p) 0) (\<lambda>x0.
          then_with (py_index (U p) 0) (\<lambda>u0. Inr ([x0], [u0])))
      | MID \<Rightarrow>
          then_with (getattr_ns p) (\<lambda>n.
          if n mod 2 = 0
          then Inl (ValueError ''Number of shooting points must be odd to use MID'')
          else then_with (py_index (X p) (int (ns p) div 2 + 1)) (\<lambda>xm.
               then_with (py_index (U p) (int (ns p) div 2 + 1)) (\<lambda>um. Inr ([xm], [um]))))
      | INTERMEDIATES \<Rightarrow>
          Inr (py_slice (X p) 1 (int (ns p) - 1), py_slice (U p) 1 (int (ns p) - 1))
      | END \<Rightarrow>
          then_with (py_index (X p) (int (ns p))) (\<lambda>xe. Inr ([xe], []))
      | ALL_NODES \<Rightarrow> Inr (X p, U p))"

subsection \<open>The constraint kinds\<close>

definition markers_rows :: "nlp \<Rightarrow> pyval \<Rightarrow> mx list \<Rightarrow> error + mx list" where
  \<comment> \<open>\<^verbatim>\<open>marker1 - marker2\<close> at one node \<open>x\<close>\<close>
  "markers_rows p policy x =
     then_with (mx_slice_to x (nb_reduced (dof_mapping p))) (\<lambda>xq.
     let q = expand (dof_mapping p) xq in
     then_with (py_getitem policy 0) (\<lambda>m1.
     then_with (py_getitem policy 1) (\<lambda>m2.
     mx_minus (marker q m1) (marker q m2))))"

definition markers_to_pair :: "nlp \<Rightarrow> mx list list \<Rightarrow> pyval \<Rightarrow> ocp \<Rightarrow> error option \<times> ocp" where
  "markers_to_pair p Xs policy ocp =
     for_each (\<lambda>x. emit (markers_rows p policy x) 3) Xs ocp"

definition proportional_row :: "nlp \<Rightarrow> pyval \<Rightarrow> mx list \<Rightarrow> error + mx list" where
  \<comment> \<open>\<^verbatim>\<open>v[elem[0]] - elem[2] * v[elem[1]]\<close> on the expanded \<open>v\<close>, left to right\<close>
  "proportional_row p elem v =
     (let v' = expand (dof_mapping p) v in
      then_with (py_getitem elem 0) (\<lambda>a.
      then_with (mx_getitem v' a) (\<lambda>va.
      then_with (py_getitem elem 2) (\<lambda>c.
      then_with (py_getitem elem 1) (\<lambda>b.
      then_with (mx_getitem v' b) (\<lambda>vb.
      then_with (mx_times c vb) (\<lambda>cvb. mx_minus [va] cvb)))))))"

definition tuple_items :: "pyval \<Rightarrow> pyval list" where
  \<comment> \<open>the items \<^verbatim>\<open>for elem in policy\<close> runs over\<close>
  "tuple_items p = (case p of PTuple xs \<Rightarrow> xs | _ \<Rightarrow> [])"

definition proportional_variable :: "nlp \<Rightarrow> mx list list \<Rightarrow> pyval \<Rightarrow> ocp \<Rightarrow> error option \<times> ocp" where
  "proportional_variable p Vs policy ocp =
     (case py_getitem policy 0 of
        Inl e \<Rightarrow> (Some e, ocp)
      | Inr first \<Rightarrow>
          if isinstance_tuple first
          then for_each (\<lambda>elem. for_each (\<lambda>v. emit (proportional_row p elem v) 1) Vs)
                 (tuple_items policy) ocp
          else for_each (\<lambda>v. emit (proportional_row p policy v) 1) Vs ocp)"

definition contact_force_inequality ::
    "nlp \<Rightarrow> mx list list \<Rightarrow> mx list list \<Rightarrow> pyval \<Rightarrow> ocp \<Rightarrow> error option \<times> ocp" where
  \<comment> \<open>the loop reads \<^verbatim>\<open>X[i]\<close> and \<^verbatim>\<open>U[i]\<close>, evaluates the contact forces into a local
      variable, and ends there\<close>
  "contact_force_inequality p Xs Us policy ocp =
     for_each (\<lambda>i s.
        case py_index Xs (int i) of
          Inl e \<Rightarrow> (Some e, s)
        | Inr x \<Rightarrow> (case py_index Us (int i) of Inl e \<Rightarrow> (Some e, s) | Inr u \<Rightarrow> (None, s)))
       [0..<length Us] ocp"

definition add_constraint :: "nlp \<Rightarrow> Type \<times> Instant \<times> pyval \<Rightarrow> ocp \<Rightarrow> error option \<times> ocp" where
  \<comment> \<open>the body of the loop of \<^verbatim>\<open>add_constraints\<close> for one \<^verbatim>\<open>elem\<close>\<close>
  "add_constraint p elem ocp =
     (case elem of (ty, inst, policy) \<Rightarrow>
        (case select_nodes p inst of
           Inl e \<Rightarrow> (Some e, ocp)
         | Inr (x, u) \<Rightarrow>
             (case ty of
                MARKERS_TO_PAIR \<Rightarrow> markers_to_pair p x policy ocp
              | PROPORTIONAL_Q \<Rightarrow> proportional_variable p x policy ocp
              | PROPORTIONAL_CONTROL \<Rightarrow>
                  if inst = END
                  then (Some (RuntimeError
                          ''A proportional control does not make sense at the last node (Instant.END)''),
                        ocp)
                  else proportional_variable p u policy ocp
              | CONTACT_FORCE_GREATER_THAN \<Rightarrow>
                  if inst = END
                  then (Some (RuntimeError
                          ''Instant.END is used even though there is no control u at last node''),
                        ocp)
                  else contact_force_inequality p x u policy ocp)))"

definition add_constraints :: "nlp \<Rightarrow> ocp \<Rightarrow> error option \<times> ocp" where
  "add_constraints p ocp = for_each (add_constraint p) (constraints p) ocp"

subsection \<open>Continuity\<close>

definition continuity_node :: "nlp \<Rightarrow> nat \<Rightarrow> ocp \<Rightarrow> error option \<times> ocp" where
  \<comment> \<open>the body of the loop over the shooting nodes \<open>k\<close> of one phase\<close>
  "continuity_node p k ocp =
     emit
       (then_with (py_index (X p) (int k)) (\<lambda>x0.
        then_with (py_index (U p) (int k)) (\<lambda>u0.
        let end_node = dynamics_call x0 u0 in
        then_with (py_index (X p) (int k + 1)) (\<lambda>x1.
        mx_minus end_node x1))))
       (nx p) ocp"

definition continuity_within_phases :: "ocp \<Rightarrow> error option \<times> ocp" where
  \<comment> \<open>\<^verbatim>\<open>for nlp in ocp.nlp: for k in range(nlp["ns"]):\<close>\<close>
  "continuity_within_phases ocp =
     for_each (\<lambda>p. for_each (continuity_node p) [0..<ns p]) (nlp ocp) ocp"

definition continuity_phase_pair :: "nat \<Rightarrow> ocp \<Rightarrow> error option \<times> ocp" where
  \<comment> \<open>the body of the loop over \<open>i\<close> in \<^verbatim>\<open>range(len(ocp.nlp) - 1)\<close>\<close>
  "continuity_phase_pair i ocp =
     (let p = nlp ocp ! i; q = nlp ocp ! (i + 1)
      in if nx p \<noteq> nx q
         then (Some (RuntimeError ''Phase constraints without same nx is not supported yet''),
               ocp)
         else emit
                (then_with (py_index (X p) (- 1)) (\<lambda>xl.
                 then_with (py_index (X q) 0) (\<lambda>x0.
                 mx_minus xl x0)))
                (nx p) ocp)"

definition continuity_between_phases :: "ocp \<Rightarrow> error option \<times> ocp" where
  "continuity_between_phases ocp =
     for_each continuity_phase_pair [0..<length (nlp ocp) - 1] ocp"

definition continuity_cyclic :: "ocp \<Rightarrow> error option \<times> ocp" where
  \<comment> \<open>\<^verbatim>\<open>if ocp.is_cyclic_constraint:\<close>\<close>
  "continuity_cyclic ocp =
     (if is_cyclic_constraint ocp
      then (case py_index (nlp ocp) 0 of
              Inl e \<Rightarrow> (Some e, ocp)
            | Inr p0 \<Rightarrow>
                (case py_index (nlp ocp) (- 1) of
                   Inl e \<Rightarrow> (Some e, ocp)
                 | Inr pl \<Rightarrow>
                     if nx p0 \<noteq> nx pl
                     then (Some (RuntimeError
                             ''Cyclic constraint without same nx is not supported yet''),
                           ocp)
                     else emit
                            (then_with (py_index (X pl) (- 1)) (\<lambda>xl.
                             then_with (py_index (X p0) 0) (\<lambda>x0.
                             mx_minus xl x0)))
                            (nx p0) ocp))
      else (None, ocp))"

definition continuity_constraint :: "ocp \<Rightarrow> error option \<times> ocp" where
  "continuity_constraint ocp =
     and_then (and_then (continuity_within_phases ocp) continuity_between_phases)
       continuity_cyclic"

section \<open>Building the program\<close>

text \<open>
  The part of \<^verbatim>\<open>OptimalControlProgram.__init__\<close> from the step lengths on. Its input
  is what the lines before have put into the phases: the sizes, the durations, the
  solvers, the mappings and the constraints. \<^verbatim>\<open>__init__\<close> calls the continuity pass and
  the constraint expansion through the name \<^verbatim>\<open>ConstraintFunction\<close>; the constraints module
  defines them in the class \<^verbatim>\<open>Constraint\<close>, as \<^verbatim>\<open>continuity_constraint\<close> and
  \<^verbatim>\<open>add_constraints\<close>. A phase without constraints has the empty list: the loop over
  it does nothing, as the skipped call does. With no phase at all \<^verbatim>\<open>__init__\<close> has
  failed before these lines (its list \<^verbatim>\<open>t0\<close> has one entry for zero phases); here the
  empty list of phases fails at the first read of \<^verbatim>\<open>self.nlp[0]\<close>.
\<close>

definition define_variables :: "ocp \<Rightarrow> ocp" where
  \<comment> \<open>the nodes of every phase, then the free times\<close>
  "define_variables ocp =
     define_variable_time
       (fold define_multiple_shooting_nodes_per_phase [0..<length (nlp ocp)] ocp)"

definition add_all_constraints :: "ocp \<Rightarrow> error option \<times> ocp" where
  \<comment> \<open>\<^verbatim>\<open>for i in range(self.nb_phases):\<close> the constraints of \<^verbatim>\<open>self.nlp[i]\<close>\<close>
  "add_all_constraints ocp =
     for_each (\<lambda>i s. add_constraints (nlp s ! i) s) [0..<length (nlp ocp)] ocp"

definition new_ocp :: "nlp list \<Rightarrow> bool \<Rightarrow> ocp" where
  \<comment> \<open>the object before the passes: \<^verbatim>\<open>self.V = []\<close>, and later \<^verbatim>\<open>self.g = []\<close> with
      empty bounds\<close>
  "new_ocp phases cyclic =
     \<lparr>nlp = phases, V = [], param_to_optimize_time = [], g = [],
      g_bounds_min = [], g_bounds_max = [], is_cyclic_constraint = cyclic\<rparr>"

definition OptimalControlProgram_init :: "nlp list \<Rightarrow> bool \<Rightarrow> error option \<times> ocp" where
  "OptimalControlProgram_init phases cyclic =
     and_then (and_then (and_then (and_then
       (define_dt (new_ocp phases cyclic))
       (\<lambda>ocp. (None, define_variables ocp)))
       define_dynamics)
       continuity_constraint)
       add_all_constraints"

section \<open>What the passes are measured against\<close>

text \<open>
  The constraint vector and its two bound vectors are in lockstep when they have the same
  length.
\<close>

definition lockstep :: "ocp \<Rightarrow> bool" where
  "lockstep ocp =
     (length (g ocp) = length (g_bounds_min ocp) \<and>
      length (g_bounds_min ocp) = length (g_bounds_max ocp))"

text \<open>
  The proportional expansion appends one bound pair for each triple and node. A triple
  made of numbers gives one row there; the policies all of whose triples, as the
  expansion reads them, are made of numbers, and the phases all of whose proportional
  constraints have such a policy:
\<close>

definition numeric_triple :: "pyval \<Rightarrow> bool" where
  "numeric_triple t = (case t of PTuple fs \<Rightarrow> list_all is_number fs | _ \<Rightarrow> True)"

definition numeric_policy :: "pyval \<Rightarrow> bool" where
  "numeric_policy policy =
     (case py_getitem policy 0 of
        Inl _ \<Rightarrow> True
      | Inr first \<Rightarrow>
          if isinstance_tuple first then list_all numeric_triple (tuple_items policy)
          else numeric_triple policy)"

definition numeric_constraint :: "Type \<times> Instant \<times> pyval \<Rightarrow> bool" where
  "numeric_constraint elem =
     (case elem of (ty, inst, policy) \<Rightarrow>
        (case ty of
           PROPORTIONAL_Q \<Rightarrow> numeric_policy policy
         | PROPORTIONAL_CONTROL \<Rightarrow> numeric_policy policy
         | _ \<Rightarrow> True))"

definition numeric_constraints :: "nlp \<Rightarrow> bool" where
  "numeric_constraints p = list_all numeric_constraint (constraints p)"

text \<open>
  The step length in the words of the specification: the duration over the number of
  intervals, counted as one when there is none.
\<close>

definition step_length :: "nlp \<Rightarrow> time_value" where
  "step_length p =
     (case tf p of
        Num r \<Rightarrow> Num (r / real (max (ns p) 1))
      | Symbolic e \<Rightarrow> Symbolic (Div e (int (max (ns p) 1))))"

text \<open>
  Appending the rows \<open>r\<close> to the constraint vector together with \<open>n\<close> bound pairs
  \<open>[0, 0]\<close>.
\<close>

definition add_rows :: "mx list \<Rightarrow> nat \<Rightarrow> ocp \<Rightarrow> ocp" where
  "add_rows r n s =
     s\<lparr>g := g s @ r, g_bounds_min := g_bounds_min s @ replicate n 0,
       g_bounds_max := g_bounds_max s @ replicate n 0\<rparr>"

text \<open>
  A phase as \<^verbatim>\<open>__define_multiple_shooting_nodes_per_phase\<close> leaves it: \<open>ns + 1\<close> state
  nodes of \<open>nx\<close> entries each and \<open>ns\<close> control nodes.
\<close>

definition nodes_sized :: "nlp \<Rightarrow> bool" where
  "nodes_sized p = list_all (\<lambda>x. length x = nx p) (X p)"

definition phase_built :: "nlp \<Rightarrow> bool" where
  "phase_built p = (length (X p) = ns p + 1 \<and> length (U p) = ns p \<and> nodes_sized p)"

text \<open>
  The continuity rows as the specification lists them: for every interval \<open>k\<close> of a phase
  the end of the interval minus the next node; for every pair of adjacent phases the last
  node of the first minus the first node of the second; for the cycle the last node of the
  last phase minus the first node of the first phase.
\<close>

definition intra_rows :: "nlp \<Rightarrow> mx list" where
  "intra_rows p =
     concat (map (\<lambda>k. map2 Minus (dynamics_call (X p ! k) (U p ! k)) (X p ! (k + 1)))
       [0..<ns p])"

definition inter_rows :: "nlp list \<Rightarrow> mx list" where
  "inter_rows ps =
     concat (map (\<lambda>i. map2 Minus (last (X (ps ! i))) (hd (X (ps ! (i + 1)))))
       [0..<length ps - 1])"

definition cyclic_rows :: "nlp list \<Rightarrow> mx list" where
  "cyclic_rows ps = map2 Minus (last (X (last ps))) (hd (X (hd ps)))"

definition adjacent_nx_equal :: "nlp list \<Rightarrow> bool" where
  "adjacent_nx_equal ps = list_all (\<lambda>i. nx (ps ! i) = nx (ps ! (i + 1))) [0..<length ps - 1]"

text \<open>
  The three rows of a coincidence constraint at one node: the coordinates of the first
  marker minus those of the second, on the expanded reduced coordinates of the node.
\<close>

definition coincidence_rows :: "nlp \<Rightarrow> pyval \<Rightarrow> pyval \<Rightarrow> mx list \<Rightarrow> mx list" where
  "coincidence_rows p m1 m2 x =
     (let q = expand (dof_mapping p) (take (nb_reduced (dof_mapping p)) x)
      in [Minus (Marker q m1 0) (Marker q m2 0),
          Minus (Marker q m1 1) (Marker q m2 1),
          Minus (Marker q m1 2) (Marker q m2 2)])"

text \<open>
  What a phase is given at the start and no pass changes: its sizes, its duration and its
  solver. What the constraint passes leave alone: everything but the constraint vector and
  its bounds.
\<close>

definition phase_descr :: "nlp \<Rightarrow> nat \<times> nat \<times> nat \<times> time_value \<times> OdeSolver" where
  "phase_descr p = (nx p, nu p, ns p, tf p, ode_solver p)"

definition same_layout :: "ocp \<Rightarrow> ocp \<Rightarrow> bool" where
  "same_layout s s' =
     (nlp s' = nlp s \<and> V s' = V s \<and>
      param_to_optimize_time s' = param_to_optimize_time s \<and>
      is_cyclic_constraint s' = is_cyclic_constraint s)"

definition no_rows :: "ocp \<Rightarrow> bool" where
  "no_rows s = (g s = [] \<and> g_bounds_min s = [] \<and> g_bounds_max s = [])"

text \<open>
  The dynamics pass fails as soon as one phase would fail on its own: a phase whose sizes
  differ from those of the first phase, or whose solver refuses its duration.
\<close>

definition phase_refused :: "nat \<times> nat \<times> nat \<times> time_value \<times> OdeSolver \<Rightarrow>
    nat \<times> nat \<times> nat \<times> time_value \<times> OdeSolver \<Rightarrow> bool" where
  "phase_refused d0 d =
     (fst d0 \<noteq> fst d \<or> fst (snd d0) \<noteq> fst (snd d) \<or>
      (isinstance_MX (fst (snd (snd (snd d)))) \<and> snd (snd (snd (snd d))) \<noteq> RK))"

text \<open>The size of the block of one phase in the decision vector.\<close>

definition phase_block_size :: "nlp \<Rightarrow> nat" where
  "phase_block_size p = nx p * (ns p + 1) + nu p * ns p"

text \<open>
  A phase description for the examples: sizes, duration, solver and constraints, with
  the identity mapping on one reduced coordinate.
\<close>

definition example_phase ::
    "nat \<Rightarrow> nat \<Rightarrow> nat \<Rightarrow> time_value \<Rightarrow> OdeSolver \<Rightarrow> (Type \<times> Instant \<times> pyval) list \<Rightarrow> nlp" where
  "example_phase n_x n_u n_s t solver cs =
     \<lparr>nx = n_x, nu = n_u, ns = n_s, tf = t, dt = None, ode_solver = solver,
      dynamics = None, X = [], U = [], constraints = cs,
      dof_mapping = \<lparr>nb_reduced = 1, expand = (\<lambda>v. v)\<rparr>\<rparr>"

definition example_ocp :: "nlp list \<Rightarrow> bool \<Rightarrow> ocp" where
  \<comment> \<open>the program object when the continuity pass starts, for phases that pass the
      dynamics pass\<close>
  "example_ocp phases cyclic =
     snd (define_dynamics (define_variables (snd (define_dt (new_ocp phases cyclic)))))"

definition coincidence_example :: "nlp list" where
  \<comment> \<open>one phase of two intervals with a coincidence constraint between the markers
      0 and 1 at all nodes\<close>
  "coincidence_example =
     [example_phase 2 1 2 (Num 1) RK
        [(MARKERS_TO_PAIR, ALL_NODES, PTuple [PInt 0, PInt 1])]]"

definition proportional_example :: "nlp list" where
  \<comment> \<open>one phase with a proportional constraint on the states at the first node, of
      coefficient one half\<close>
  "proportional_example =
     [example_phase 2 1 2 (Num 1) RK
        [(PROPORTIONAL_Q, START, PTuple [PInt 0, PInt 1, PFloat (1 / 2)])]]"

definition tuple_coefficient_example :: "nlp list" where
  \<comment> \<open>the same with the tuple \<^verbatim>\<open>(1, 2)\<close> in the place of the coefficient\<close>
  "tuple_coefficient_example =
     [example_phase 2 1 2 (Num 1) RK
        [(PROPORTIONAL_Q, START, PTuple [PInt 0, PInt 1, PTuple [PInt 1, PInt 2]])]]"

definition two_phase_example :: "nlp list" where
  \<comment> \<open>two phases with the same sizes, of two and of three intervals\<close>
  "two_phase_example =
     [example_phase 2 1 2 (Num 1) RK [], example_phase 2 1 3 (Num 1) RK []]"

definition built_phase :: "nlp \<Rightarrow> nlp" where
  \<comment> \<open>a single phase after the decision-vector pass\<close>
  "built_phase p = hd (nlp (define_variables (new_ocp [p] False)))"

section \<open>The step length\<close>

lemma truediv_nonzero: "d \<noteq> 0 \<Longrightarrow> \<exists>v. truediv t d = Inr v"
  by (cases t) (simp_all add: truediv_def)

lemma phase_dt_returns: "\<exists>v. phase_dt p = Inr v"
  unfolding phase_dt_def by (rule truediv_nonzero) simp

lemma dt_list_returns: "\<exists>ds. dt_list ps = Inr ds \<and> length ds = length ps"
proof (induction ps)
  case Nil
  show ?case by simp
next
  case (Cons p ps)
  obtain d where d: "phase_dt p = Inr d" using phase_dt_returns by blast
  from Cons obtain ds where ds: "dt_list ps = Inr ds" "length ds = length ps" by blast
  show ?case by (simp add: d ds)
qed

section \<open>Loops and sequencing\<close>

lemma for_each_invariant:
  assumes "\<And>x s. x \<in> set xs \<Longrightarrow> P s \<Longrightarrow> P (snd (body x s))" and "P s"
  shows "P (snd (for_each body xs s))"
  using assms
proof (induction xs arbitrary: s)
  case Nil
  then show ?case by simp
next
  case (Cons x xs)
  have step: "P (snd (body x s))" using Cons.prems by simp
  show ?case
  proof (cases "body x s")
    case (Pair r s')
    with step have s': "P s'" by simp
    show ?thesis
    proof (cases r)
      case None
      have "P (snd (for_each body xs s'))"
        by (rule Cons.IH) (use Cons.prems s' in auto)
      with Pair None show ?thesis by simp
    next
      case (Some e)
      with Pair s' show ?thesis by simp
    qed
  qed
qed

lemma for_each_fails:
  assumes "x \<in> set xs" and "P s"
    and "\<And>s. P s \<Longrightarrow> \<exists>e. fst (body x s) = Some e"
    and "\<And>y s. P s \<Longrightarrow> P (snd (body y s))"
    and "\<And>y s e. fst (body y s) = Some e \<Longrightarrow> Q e"
  shows "\<exists>e. fst (for_each body xs s) = Some e \<and> Q e"
  using assms(1,2)
proof (induction xs arbitrary: s)
  case Nil
  then show ?case by simp
next
  case (Cons y ys)
  show ?case
  proof (cases "body y s")
    case (Pair r s')
    show ?thesis
    proof (cases r)
      case (Some e)
      with Pair have "fst (body y s) = Some e" by simp
      then have "Q e" by (rule assms(5))
      with Pair Some show ?thesis by simp
    next
      case None
      have s': "P s'" using assms(4)[OF Cons.prems(2), of y] Pair by simp
      have "x \<noteq> y"
      proof
        assume "x = y"
        with assms(3)[OF Cons.prems(2)] Pair None show False by simp
      qed
      with Cons.prems(1) have "x \<in> set ys" by simp
      from Cons.IH[OF this s'] Pair None show ?thesis by simp
    qed
  qed
qed

lemma and_then_invariant:
  assumes "P (snd r)" and "\<And>s. P s \<Longrightarrow> P (snd (f s))"
  shows "P (snd (and_then r f))"
  using assms by (cases r) (auto simp: and_then_def split: option.splits)

lemma and_then_error: "fst r = Some e \<Longrightarrow> and_then r f = r"
  by (cases r) (simp add: and_then_def)

lemma and_then_ok: "fst r = None \<Longrightarrow> and_then r f = f (snd r)"
  by (cases r) (simp add: and_then_def)

lemma fold_invariant:
  assumes "\<And>x s. x \<in> set xs \<Longrightarrow> P s \<Longrightarrow> P (f x s)" and "P s"
  shows "P (fold f xs s)"
  using assms by (induction xs arbitrary: s) auto

section \<open>What the first passes keep\<close>

lemma define_dt_result:
  "\<exists>ds. length ds = length (nlp ocp) \<and>
     define_dt ocp = (None, ocp\<lparr>nlp := map2 (\<lambda>p d. p\<lparr>dt := Some d\<rparr>) (nlp ocp) ds\<rparr>)"
proof -
  obtain ds where ds: "dt_list (nlp ocp) = Inr ds" "length ds = length (nlp ocp)"
    using dt_list_returns by blast
  then show ?thesis by (auto simp: define_dt_def add_dt_to_nlp_def)
qed

lemma phase_descr_set_dt:
  "length ps = length ds \<Longrightarrow>
     map phase_descr (map2 (\<lambda>p d. p\<lparr>dt := Some d\<rparr>) ps ds) = map phase_descr ps"
  by (induction ps ds rule: list_induct2) (simp_all add: phase_descr_def)

lemma define_dt_ok: "fst (define_dt ocp) = None"
  using define_dt_result [of ocp] by auto

lemma define_dt_descr: "map phase_descr (nlp (snd (define_dt ocp))) = map phase_descr (nlp ocp)"
proof -
  obtain ds where ds: "length ds = length (nlp ocp)"
    and r: "define_dt ocp = (None, ocp\<lparr>nlp := map2 (\<lambda>p d. p\<lparr>dt := Some d\<rparr>) (nlp ocp) ds\<rparr>)"
    using define_dt_result [of ocp] by blast
  have "nlp (snd (define_dt ocp)) = map2 (\<lambda>p d. p\<lparr>dt := Some d\<rparr>) (nlp ocp) ds"
    by (simp add: r)
  then show ?thesis using phase_descr_set_dt [of "nlp ocp" ds] ds by simp
qed

lemma define_dt_frame:
  "V (snd (define_dt ocp)) = V ocp \<and> g (snd (define_dt ocp)) = g ocp \<and>
   g_bounds_min (snd (define_dt ocp)) = g_bounds_min ocp \<and>
   g_bounds_max (snd (define_dt ocp)) = g_bounds_max ocp \<and>
   is_cyclic_constraint (snd (define_dt ocp)) = is_cyclic_constraint ocp"
  using define_dt_result [of ocp] by auto

lemma map_descr_update:
  "phase_descr q = phase_descr (ps ! i) \<Longrightarrow> map phase_descr (ps[i := q]) = map phase_descr ps"
proof (cases "i < length ps")
  case True
  assume "phase_descr q = phase_descr (ps ! i)"
  with True show ?thesis by (simp add: map_update list_update_same_conv)
next
  case False
  then show ?thesis by (simp add: list_update_beyond)
qed

lemma define_nodes_descr:
  "map phase_descr (nlp (define_multiple_shooting_nodes_per_phase i ocp)) =
     map phase_descr (nlp ocp)"
  by (simp add: define_multiple_shooting_nodes_per_phase_def Let_def map_descr_update
      phase_descr_def split: prod.split)

lemma define_nodes_V:
  "V (define_multiple_shooting_nodes_per_phase i ocp) =
     V ocp @ MX_sym (V_phase i) (phase_block_size (nlp ocp ! i))"
  by (simp add: define_multiple_shooting_nodes_per_phase_def Let_def vertcat_def
      phase_block_size_def split: prod.split)

lemma define_nodes_frame:
  "g (define_multiple_shooting_nodes_per_phase i ocp) = g ocp \<and>
   g_bounds_min (define_multiple_shooting_nodes_per_phase i ocp) = g_bounds_min ocp \<and>
   g_bounds_max (define_multiple_shooting_nodes_per_phase i ocp) = g_bounds_max ocp \<and>
   is_cyclic_constraint (define_multiple_shooting_nodes_per_phase i ocp) =
     is_cyclic_constraint ocp"
  by (simp add: define_multiple_shooting_nodes_per_phase_def Let_def split: prod.split)

lemma block_size_descr:
  "phase_descr p = phase_descr q \<Longrightarrow> phase_block_size p = phase_block_size q"
  by (simp add: phase_descr_def phase_block_size_def)

lemma nodes_fold_V:
  "n \<le> length (nlp ocp) \<Longrightarrow>
     map phase_descr (nlp (fold define_multiple_shooting_nodes_per_phase [0..<n] ocp)) =
       map phase_descr (nlp ocp) \<and>
     length (V (fold define_multiple_shooting_nodes_per_phase [0..<n] ocp)) =
       length (V ocp) + sum_list (map phase_block_size (take n (nlp ocp)))"
proof (induction n)
  case 0
  show ?case by simp
next
  case (Suc n)
  let ?s = "fold define_multiple_shooting_nodes_per_phase [0..<n] ocp"
  from Suc have n: "n < length (nlp ocp)" by simp
  with Suc.IH have d: "map phase_descr (nlp ?s) = map phase_descr (nlp ocp)"
    and v: "length (V ?s) = length (V ocp) + sum_list (map phase_block_size (take n (nlp ocp)))"
    by simp_all
  from d have "length (nlp ?s) = length (nlp ocp)" by (metis length_map)
  with n d have "phase_descr (nlp ?s ! n) = phase_descr (nlp ocp ! n)"
    by (metis nth_map)
  then have b: "phase_block_size (nlp ?s ! n) = phase_block_size (nlp ocp ! n)"
    by (rule block_size_descr)
  have t: "take (Suc n) (nlp ocp) = take n (nlp ocp) @ [nlp ocp ! n]"
    using n by (simp add: take_Suc_conv_app_nth)
  show ?case
    by (simp add: define_nodes_descr d define_nodes_V v b t MX_sym_def)
qed

lemma variable_time_step:
  "variable_time p (s, P) =
     (case tf p of
        Symbolic t \<Rightarrow> (s\<lparr>V := V s @ [t]\<rparr>, P @ [t])
      | Num _ \<Rightarrow> (s, P))"
  by (simp add: variable_time_def vertcat_def split: time_value.split)

lemma variable_time_fold:
  "fold variable_time ps (s, P) =
     (s\<lparr>V := V s @ concat (map (\<lambda>p. case tf p of Symbolic t \<Rightarrow> [t] | Num _ \<Rightarrow> []) ps)\<rparr>,
      P @ concat (map (\<lambda>p. case tf p of Symbolic t \<Rightarrow> [t] | Num _ \<Rightarrow> []) ps))"
proof (induction ps arbitrary: s P)
  case Nil
  show ?case by simp
next
  case (Cons p ps)
  show ?case
    by (cases "tf p") (simp_all add: variable_time_step Cons.IH)
qed

lemma free_times_count:
  "length (concat (map (\<lambda>p. case tf p of Symbolic t \<Rightarrow> [t] | Num _ \<Rightarrow> []) ps)) =
     length (filter (\<lambda>p. isinstance_MX (tf p)) ps)"
  by (induction ps) (auto simp: isinstance_MX_def split: time_value.splits)

lemma define_variable_time_V:
  "length (V (define_variable_time ocp)) =
     length (V ocp) + length (filter (\<lambda>p. isinstance_MX (tf p)) (nlp ocp))"
  by (simp add: define_variable_time_def variable_time_fold free_times_count)

lemma define_variable_time_frame:
  "nlp (define_variable_time ocp) = nlp ocp \<and> g (define_variable_time ocp) = g ocp \<and>
   g_bounds_min (define_variable_time ocp) = g_bounds_min ocp \<and>
   g_bounds_max (define_variable_time ocp) = g_bounds_max ocp \<and>
   is_cyclic_constraint (define_variable_time ocp) = is_cyclic_constraint ocp"
  by (simp add: define_variable_time_def variable_time_fold)

lemma filter_free_descr:
  assumes "map phase_descr ps = map phase_descr qs"
  shows "length (filter (\<lambda>p. isinstance_MX (tf p)) ps) =
         length (filter (\<lambda>p. isinstance_MX (tf p)) qs)"
proof -
  let ?free = "\<lambda>d::nat \<times> nat \<times> nat \<times> time_value \<times> OdeSolver.
                 isinstance_MX (fst (snd (snd (snd d))))"
  have eq: "length (filter (\<lambda>p. isinstance_MX (tf p)) rs) =
      length (filter ?free (map phase_descr rs))" for rs
    by (simp add: filter_map comp_def phase_descr_def)
  have "length (filter (\<lambda>p. isinstance_MX (tf p)) ps) =
      length (filter ?free (map phase_descr ps))"
    by (rule eq)
  also have "\<dots> = length (filter ?free (map phase_descr qs))"
    by (simp only: assms)
  also have "\<dots> = length (filter (\<lambda>p. isinstance_MX (tf p)) qs)"
    by (rule eq [symmetric])
  finally show ?thesis .
qed

lemma block_sum_descr:
  assumes "map phase_descr ps = map phase_descr qs"
  shows "sum_list (map phase_block_size ps) = sum_list (map phase_block_size qs)"
proof -
  let ?size = "\<lambda>d::nat \<times> nat \<times> nat \<times> time_value \<times> OdeSolver.
                 fst d * (fst (snd (snd d)) + 1) + fst (snd d) * fst (snd (snd d))"
  have eq: "map phase_block_size rs = map ?size (map phase_descr rs)" for rs
    by (simp add: phase_block_size_def phase_descr_def)
  have "map phase_block_size ps = map ?size (map phase_descr ps)"
    by (rule eq)
  also have "\<dots> = map ?size (map phase_descr qs)"
    by (simp only: assms)
  also have "\<dots> = map phase_block_size qs"
    by (rule eq [symmetric])
  finally show ?thesis by simp
qed

lemma define_variables_descr:
  "map phase_descr (nlp (define_variables ocp)) = map phase_descr (nlp ocp)"
  using nodes_fold_V [of "length (nlp ocp)" ocp]
  by (simp add: define_variables_def define_variable_time_frame)

lemma define_variables_V:
  "length (V (define_variables ocp)) =
     length (V ocp) + sum_list (map phase_block_size (nlp ocp)) +
     length (filter (\<lambda>p. isinstance_MX (tf p)) (nlp ocp))"
proof -
  let ?s = "fold define_multiple_shooting_nodes_per_phase [0..<length (nlp ocp)] ocp"
  have d: "map phase_descr (nlp ?s) = map phase_descr (nlp ocp)"
    and v: "length (V ?s) = length (V ocp) + sum_list (map phase_block_size (nlp ocp))"
    using nodes_fold_V [of "length (nlp ocp)" ocp] by simp_all
  show ?thesis
    by (simp add: define_variables_def define_variable_time_V v filter_free_descr [OF d])
qed

lemma define_variables_frame:
  "g (define_variables ocp) = g ocp \<and>
   g_bounds_min (define_variables ocp) = g_bounds_min ocp \<and>
   g_bounds_max (define_variables ocp) = g_bounds_max ocp \<and>
   is_cyclic_constraint (define_variables ocp) = is_cyclic_constraint ocp"
proof -
  let ?P = "\<lambda>s. g s = g ocp \<and> g_bounds_min s = g_bounds_min ocp \<and>
     g_bounds_max s = g_bounds_max ocp \<and> is_cyclic_constraint s = is_cyclic_constraint ocp"
  have "?P (fold define_multiple_shooting_nodes_per_phase [0..<length (nlp ocp)] ocp)"
    by (rule fold_invariant) (simp_all add: define_nodes_frame)
  then show ?thesis by (simp add: define_variables_def define_variable_time_frame)
qed

section \<open>The dynamics pass\<close>

lemma prepare_dynamics_descr: "prepare_dynamics p = Inr q \<Longrightarrow> phase_descr q = phase_descr p"
  by (auto simp: prepare_dynamics_def phase_descr_def split: OdeSolver.splits if_splits)

lemma prepare_dynamics_error:
  "prepare_dynamics p = Inl e \<Longrightarrow> \<exists>msg. e = RuntimeError msg"
  by (auto simp: prepare_dynamics_def split: OdeSolver.splits if_splits)

lemma check_and_prepare_descr:
  "map phase_descr (nlp (snd (check_and_prepare i s))) = map phase_descr (nlp s)"
  by (auto simp: check_and_prepare_def Let_def map_descr_update prepare_dynamics_descr
      split: sum.splits)

lemma check_and_prepare_frame:
  "V (snd (check_and_prepare i s)) = V s \<and> g (snd (check_and_prepare i s)) = g s \<and>
   g_bounds_min (snd (check_and_prepare i s)) = g_bounds_min s \<and>
   g_bounds_max (snd (check_and_prepare i s)) = g_bounds_max s \<and>
   is_cyclic_constraint (snd (check_and_prepare i s)) = is_cyclic_constraint s"
  by (auto simp: check_and_prepare_def Let_def split: sum.splits)

lemma check_and_prepare_error:
  "fst (check_and_prepare i s) = Some e \<Longrightarrow> \<exists>msg. e = RuntimeError msg"
  by (auto simp: check_and_prepare_def Let_def split: sum.splits if_splits
      dest: prepare_dynamics_error)

lemma define_dynamics_descr:
  "map phase_descr (nlp (snd (define_dynamics s))) = map phase_descr (nlp s)"
proof (cases "py_index (nlp s) 0")
  case (Inl e)
  then show ?thesis by (simp add: define_dynamics_def)
next
  case (Inr p)
  have "map phase_descr (nlp (snd (for_each check_and_prepare [0..<length (nlp s)] s))) =
      map phase_descr (nlp s)"
    by (rule for_each_invariant) (simp_all add: check_and_prepare_descr)
  with Inr show ?thesis by (simp add: define_dynamics_def)
qed

lemma define_dynamics_frame:
  "V (snd (define_dynamics s)) = V s \<and> g (snd (define_dynamics s)) = g s \<and>
   g_bounds_min (snd (define_dynamics s)) = g_bounds_min s \<and>
   g_bounds_max (snd (define_dynamics s)) = g_bounds_max s \<and>
   is_cyclic_constraint (snd (define_dynamics s)) = is_cyclic_constraint s"
proof (cases "py_index (nlp s) 0")
  case (Inl e)
  then show ?thesis by (simp add: define_dynamics_def)
next
  case (Inr p)
  let ?P = "\<lambda>t. V t = V s \<and> g t = g s \<and> g_bounds_min t = g_bounds_min s \<and>
     g_bounds_max t = g_bounds_max s \<and> is_cyclic_constraint t = is_cyclic_constraint s"
  have "?P (snd (for_each check_and_prepare [0..<length (nlp s)] s))"
    by (rule for_each_invariant) (simp_all add: check_and_prepare_frame)
  with Inr show ?thesis by (simp add: define_dynamics_def)
qed

lemma check_and_prepare_refuses:
  assumes "phase_refused (phase_descr (nlp s ! 0)) (phase_descr (nlp s ! i))"
  shows "\<exists>e. fst (check_and_prepare i s) = Some e"
  using assms
  by (cases "ode_solver (nlp s ! i)")
     (auto simp: phase_refused_def phase_descr_def check_and_prepare_def Let_def
        prepare_dynamics_def)

lemma define_dynamics_refuses:
  assumes i: "i < length (nlp s)"
    and r: "phase_refused (phase_descr (nlp s ! 0)) (phase_descr (nlp s ! i))"
  shows "\<exists>msg. fst (define_dynamics s) = Some (RuntimeError msg)"
proof -
  let ?P = "\<lambda>t. map phase_descr (nlp t) = map phase_descr (nlp s)"
  have nth: "phase_descr (nlp t ! j) = phase_descr (nlp s ! j)"
    if "?P t" "j < length (nlp s)" for t :: ocp and j
  proof -
    from that(1) have "length (nlp t) = length (nlp s)" by (metis length_map)
    with that show ?thesis by (metis nth_map)
  qed
  from i have first: "0 < length (nlp s)" by auto
  have "\<exists>e. fst (for_each check_and_prepare [0..<length (nlp s)] s) = Some e \<and>
      (\<exists>msg. e = RuntimeError msg)"
  proof (rule for_each_fails [where x = i and P = ?P])
    show "i \<in> set [0..<length (nlp s)]" using i by simp
    show "?P s" by simp
    show "\<exists>e. fst (check_and_prepare i t) = Some e" if "?P t" for t :: ocp
    proof (rule check_and_prepare_refuses)
      show "phase_refused (phase_descr (nlp t ! 0)) (phase_descr (nlp t ! i))"
        using r nth [OF that first] nth [OF that i] by simp
    qed
    show "?P (snd (check_and_prepare j t))" if "?P t" for j and t :: ocp
      using that by (simp add: check_and_prepare_descr)
    show "\<exists>msg. e = RuntimeError msg" if "fst (check_and_prepare j t) = Some e" for j e and t :: ocp
      using that by (rule check_and_prepare_error)
  qed
  moreover have "\<exists>p. py_index (nlp s) 0 = Inr p"
    using first by (simp add: py_index_def)
  ultimately show ?thesis by (auto simp: define_dynamics_def)
qed

section \<open>Appending rows and bounds\<close>

lemma append_bounds_eq:
  "append_bounds n s =
     s\<lparr>g_bounds_min := g_bounds_min s @ replicate n 0,
       g_bounds_max := g_bounds_max s @ replicate n 0\<rparr>"
proof (induction n)
  case 0
  show ?case by (simp add: append_bounds_def)
next
  case (Suc n)
  have "append_bounds (Suc n) s = append_bound (append_bounds n s)"
    by (simp add: append_bounds_def)
  also have "\<dots> = s\<lparr>g_bounds_min := g_bounds_min s @ replicate (Suc n) 0,
       g_bounds_max := g_bounds_max s @ replicate (Suc n) 0\<rparr>"
    by (simp add: Suc.IH append_bound_def replicate_append_same)
  finally show ?case .
qed

lemma emit_Inl: "emit (Inl e) n s = (Some e, s)"
  by (simp add: emit_def)

lemma emit_Inr:
  "emit (Inr r) n s =
     (None, s\<lparr>g := g s @ r, g_bounds_min := g_bounds_min s @ replicate n 0,
               g_bounds_max := g_bounds_max s @ replicate n 0\<rparr>)"
  by (simp add: emit_def append_bounds_eq vertcat_def)

lemma same_layout_refl: "same_layout s s"
  by (simp add: same_layout_def)

lemma same_layout_trans: "same_layout s t \<Longrightarrow> same_layout t u \<Longrightarrow> same_layout s u"
  by (simp add: same_layout_def)

lemma emit_same_layout: "same_layout s (snd (emit rows n s))"
  by (cases rows) (simp_all add: emit_Inl emit_Inr same_layout_def)

lemma emit_lockstep:
  assumes "\<And>r. rows = Inr r \<Longrightarrow> length r = n" and "lockstep s"
  shows "lockstep (snd (emit rows n s))"
proof (cases rows)
  case (Inl e)
  with assms(2) show ?thesis by (simp add: emit_Inl)
next
  case (Inr r)
  with assms(1) have "length r = n" by simp
  with assms(2) Inr show ?thesis by (simp add: emit_Inr lockstep_def)
qed

lemma for_each_same_layout:
  assumes "\<And>x t. x \<in> set xs \<Longrightarrow> same_layout t (snd (body x t))"
  shows "same_layout s (snd (for_each body xs s))"
proof (rule for_each_invariant [where P = "same_layout s"])
  show "same_layout s s" by (rule same_layout_refl)
  show "same_layout s (snd (body x t))" if "x \<in> set xs" "same_layout s t" for x t
    using that(2) assms [OF that(1)] by (rule same_layout_trans)
qed

lemma and_then_same_layout:
  assumes "same_layout s (snd r)" and "\<And>t. same_layout t (snd (f t))"
  shows "same_layout s (snd (and_then r f))"
proof (rule and_then_invariant [where P = "same_layout s"])
  show "same_layout s (snd r)" by (rule assms(1))
  show "same_layout s (snd (f t))" if "same_layout s t" for t
    using that assms(2) by (rule same_layout_trans)
qed

lemma then_with_Inr:
  "then_with r f = Inr v \<Longrightarrow> \<exists>w. r = Inr w \<and> f w = Inr v"
  by (cases r) (simp_all add: then_with_def)

lemma py_index_in_set: "py_index xs i = Inr x \<Longrightarrow> x \<in> set xs"
  by (auto simp: py_index_def split: if_splits)

section \<open>The constraint kinds keep the layout and the lockstep\<close>

lemma markers_rows_length: "markers_rows p policy x = Inr r \<Longrightarrow> length r = 3"
  unfolding markers_rows_def Let_def
  by (auto dest!: then_with_Inr simp: mx_minus_def marker_def)

lemma markers_to_pair_same_layout: "same_layout s (snd (markers_to_pair p Xs policy s))"
  unfolding markers_to_pair_def
  by (rule for_each_same_layout) (rule emit_same_layout)

lemma markers_to_pair_lockstep:
  "lockstep s \<Longrightarrow> lockstep (snd (markers_to_pair p Xs policy s))"
  unfolding markers_to_pair_def
  by (rule for_each_invariant) (auto intro: emit_lockstep dest: markers_rows_length)

lemma proportional_variable_same_layout:
  "same_layout s (snd (proportional_variable p Vs policy s))"
proof (cases "py_getitem policy 0")
  case (Inl e)
  then show ?thesis by (simp add: proportional_variable_def same_layout_refl)
next
  case (Inr a)
  show ?thesis
    unfolding proportional_variable_def Inr
    by (auto intro!: for_each_same_layout emit_same_layout)
qed

lemma contact_force_inequality_unchanged:
  "snd (contact_force_inequality p Xs Us policy s) = s"
  unfolding contact_force_inequality_def
  by (rule for_each_invariant [where P = "\<lambda>t. t = s"]) (auto split: sum.splits)

lemma add_constraint_same_layout: "same_layout s (snd (add_constraint p elem s))"
proof -
  obtain ty inst policy where elem: "elem = (ty, inst, policy)" by (cases elem) auto
  show ?thesis
  proof (cases "select_nodes p inst")
    case (Inl e)
    then show ?thesis by (simp add: add_constraint_def elem same_layout_refl)
  next
    case (Inr xu)
    obtain x u where xu: "xu = (x, u)" by (cases xu) auto
    show ?thesis
      by (cases ty)
         (simp_all add: add_constraint_def elem Inr xu markers_to_pair_same_layout
            proportional_variable_same_layout contact_force_inequality_unchanged
            same_layout_refl)
  qed
qed

lemma add_constraints_same_layout: "same_layout s (snd (add_constraints p s))"
  unfolding add_constraints_def
  by (rule for_each_same_layout) (rule add_constraint_same_layout)

lemma add_all_constraints_same_layout: "same_layout s (snd (add_all_constraints s))"
  unfolding add_all_constraints_def
  by (rule for_each_same_layout) (rule add_constraints_same_layout)

section \<open>The continuity pass keeps the layout and the lockstep\<close>

lemma nodes_sized_index:
  "nodes_sized p \<Longrightarrow> py_index (X p) i = Inr x \<Longrightarrow> length x = nx p"
  by (auto simp: nodes_sized_def list_all_iff dest: py_index_in_set)

lemma mx_minus_rows:
  "length a = n \<Longrightarrow> length b = n \<Longrightarrow> mx_minus a b = Inr r \<Longrightarrow> length r = n"
  by (auto simp: mx_minus_def)

lemma continuity_node_same_layout: "same_layout s (snd (continuity_node p k s))"
  unfolding continuity_node_def by (rule emit_same_layout)

lemma continuity_node_lockstep:
  assumes "nodes_sized p" and "lockstep s"
  shows "lockstep (snd (continuity_node p k s))"
  unfolding continuity_node_def
proof (rule emit_lockstep)
  show "lockstep s" by (rule assms(2))
next
  fix r
  assume "then_with (py_index (X p) (int k)) (\<lambda>x0.
        then_with (py_index (U p) (int k)) (\<lambda>u0.
        let end_node = dynamics_call x0 u0 in
        then_with (py_index (X p) (int k + 1)) (\<lambda>x1.
        mx_minus end_node x1))) = Inr r"
  then obtain x0 u0 x1 where x0: "py_index (X p) (int k) = Inr x0"
    and x1: "py_index (X p) (int k + 1) = Inr x1"
    and r: "mx_minus (dynamics_call x0 u0) x1 = Inr r"
    by (auto dest!: then_with_Inr simp: Let_def)
  from assms(1) x0 have "length x0 = nx p" by (rule nodes_sized_index)
  moreover from assms(1) x1 have "length x1 = nx p" by (rule nodes_sized_index)
  ultimately have "length (dynamics_call x0 u0) = nx p" and "length x1 = nx p"
    by (simp_all add: dynamics_call_def)
  then show "length r = nx p" using r by (rule mx_minus_rows)
qed

lemma continuity_within_phases_same_layout:
  "same_layout s (snd (continuity_within_phases s))"
  unfolding continuity_within_phases_def
  by (intro for_each_same_layout continuity_node_same_layout)

lemma continuity_within_phases_lockstep:
  assumes "list_all nodes_sized (nlp s)" and "lockstep s"
  shows "lockstep (snd (continuity_within_phases s))"
  unfolding continuity_within_phases_def
proof (rule for_each_invariant [where P = lockstep])
  show "lockstep s" by (rule assms(2))
next
  fix p t
  assume p: "p \<in> set (nlp s)" and t: "lockstep t"
  from p assms(1) have sized: "nodes_sized p" by (simp add: list_all_iff)
  show "lockstep (snd (for_each (continuity_node p) [0..<ns p] t))"
    by (rule for_each_invariant [where P = lockstep])
       (use t sized in \<open>auto intro: continuity_node_lockstep\<close>)
qed

lemma continuity_phase_pair_same_layout: "same_layout s (snd (continuity_phase_pair i s))"
  by (simp add: continuity_phase_pair_def Let_def same_layout_refl emit_same_layout)

lemma continuity_phase_pair_lockstep:
  assumes "list_all nodes_sized (nlp s)" and "i + 1 < length (nlp s)" and "lockstep s"
  shows "lockstep (snd (continuity_phase_pair i s))"
proof (cases "nx (nlp s ! i) = nx (nlp s ! (i + 1))")
  case False
  with assms(3) show ?thesis by (simp add: continuity_phase_pair_def Let_def)
next
  case True
  let ?p = "nlp s ! i" and ?q = "nlp s ! (i + 1)"
  from assms(1,2) have p: "nodes_sized ?p" and q: "nodes_sized ?q"
    by (simp_all add: list_all_length)
  have "lockstep (snd (emit
      (then_with (py_index (X ?p) (- 1)) (\<lambda>xl.
       then_with (py_index (X ?q) 0) (\<lambda>x0. mx_minus xl x0))) (nx ?p) s))"
  proof (rule emit_lockstep)
    show "lockstep s" by (rule assms(3))
  next
    fix r
    assume "then_with (py_index (X ?p) (- 1)) (\<lambda>xl.
       then_with (py_index (X ?q) 0) (\<lambda>x0. mx_minus xl x0)) = Inr r"
    then obtain xl x0 where xl: "py_index (X ?p) (- 1) = Inr xl"
      and x0: "py_index (X ?q) 0 = Inr x0" and r: "mx_minus xl x0 = Inr r"
      by (auto dest!: then_with_Inr)
    from p xl have l: "length xl = nx ?p" by (rule nodes_sized_index)
    from q x0 have "length x0 = nx ?q" by (rule nodes_sized_index)
    with True have "length x0 = nx ?p" by simp
    with l show "length r = nx ?p" using r by (rule mx_minus_rows)
  qed
  with True show ?thesis by (simp add: continuity_phase_pair_def Let_def)
qed

lemma continuity_between_phases_same_layout:
  "same_layout s (snd (continuity_between_phases s))"
  unfolding continuity_between_phases_def
  by (intro for_each_same_layout continuity_phase_pair_same_layout)

lemma continuity_between_phases_lockstep:
  assumes "list_all nodes_sized (nlp s)" and "lockstep s"
  shows "lockstep (snd (continuity_between_phases s))"
proof -
  let ?P = "\<lambda>t. same_layout s t \<and> lockstep t"
  have "?P (snd (for_each continuity_phase_pair [0..<length (nlp s) - 1] s))"
  proof (rule for_each_invariant [where P = ?P])
    show "?P s" using assms(2) by (simp add: same_layout_refl)
  next
    fix i t
    assume i: "i \<in> set [0..<length (nlp s) - 1]" and t: "?P t"
    from t have eq: "nlp t = nlp s" by (simp add: same_layout_def)
    from i have "i + 1 < length (nlp t)" by (simp add: eq)
    moreover have "list_all nodes_sized (nlp t)" using assms(1) by (simp add: eq)
    ultimately have "lockstep (snd (continuity_phase_pair i t))"
      using t by (intro continuity_phase_pair_lockstep) simp_all
    moreover have "same_layout s (snd (continuity_phase_pair i t))"
      using t continuity_phase_pair_same_layout by (blast intro: same_layout_trans)
    ultimately show "?P (snd (continuity_phase_pair i t))" by simp
  qed
  then show ?thesis by (simp add: continuity_between_phases_def)
qed

lemma continuity_cyclic_same_layout: "same_layout s (snd (continuity_cyclic s))"
  by (simp add: continuity_cyclic_def same_layout_refl emit_same_layout split: sum.splits)

lemma continuity_cyclic_lockstep:
  assumes "list_all nodes_sized (nlp s)" and "lockstep s"
  shows "lockstep (snd (continuity_cyclic s))"
proof (cases "is_cyclic_constraint s")
  case False
  with assms(2) show ?thesis by (simp add: continuity_cyclic_def)
next
  case True
  show ?thesis
  proof (cases "py_index (nlp s) 0")
    case (Inl e)
    with True assms(2) show ?thesis by (simp add: continuity_cyclic_def)
  next
    case p0: (Inr p0)
    show ?thesis
    proof (cases "py_index (nlp s) (- 1)")
      case (Inl e)
      with True p0 assms(2) show ?thesis by (simp add: continuity_cyclic_def)
    next
      case pl: (Inr pl)
      from p0 pl assms(1) have s0: "nodes_sized p0" and sl: "nodes_sized pl"
        by (auto simp: list_all_iff dest: py_index_in_set)
      show ?thesis
      proof (cases "nx p0 = nx pl")
        case False
        with True p0 pl assms(2) show ?thesis by (simp add: continuity_cyclic_def)
      next
        case same: True
        have "lockstep (snd (emit
            (then_with (py_index (X pl) (- 1)) (\<lambda>xl.
             then_with (py_index (X p0) 0) (\<lambda>x0. mx_minus xl x0))) (nx p0) s))"
        proof (rule emit_lockstep)
          show "lockstep s" by (rule assms(2))
        next
          fix r
          assume "then_with (py_index (X pl) (- 1)) (\<lambda>xl.
             then_with (py_index (X p0) 0) (\<lambda>x0. mx_minus xl x0)) = Inr r"
          then obtain xl x0 where xl: "py_index (X pl) (- 1) = Inr xl"
            and x0: "py_index (X p0) 0 = Inr x0" and r: "mx_minus xl x0 = Inr r"
            by (auto dest!: then_with_Inr)
          from sl xl have l: "length xl = nx pl" by (rule nodes_sized_index)
          from s0 x0 have "length x0 = nx p0" by (rule nodes_sized_index)
          from l same have "length xl = nx p0" by simp
          then show "length r = nx p0" using \<open>length x0 = nx p0\<close> r by (rule mx_minus_rows)
        qed
        with True p0 pl same show ?thesis by (simp add: continuity_cyclic_def)
      qed
    qed
  qed
qed

lemma continuity_constraint_same_layout: "same_layout s (snd (continuity_constraint s))"
  unfolding continuity_constraint_def
  by (intro and_then_same_layout continuity_within_phases_same_layout
      continuity_between_phases_same_layout continuity_cyclic_same_layout)

lemma continuity_constraint_lockstep:
  assumes "list_all nodes_sized (nlp s)" and "lockstep s"
  shows "lockstep (snd (continuity_constraint s))"
proof -
  let ?P = "\<lambda>t. same_layout s t \<and> lockstep t"
  have keep: "list_all nodes_sized (nlp t)" if "?P t" for t
    using that assms(1) by (simp add: same_layout_def)
  have 1: "?P (snd (continuity_within_phases s))"
    using assms by (simp add: continuity_within_phases_same_layout
        continuity_within_phases_lockstep)
  have 2: "?P (snd (and_then (continuity_within_phases s) continuity_between_phases))"
  proof (rule and_then_invariant [where P = ?P, OF 1])
    fix t assume t: "?P t"
    then show "?P (snd (continuity_between_phases t))"
      using keep [OF t] continuity_between_phases_same_layout [of t]
      by (auto intro: continuity_between_phases_lockstep same_layout_trans)
  qed
  have "?P (snd (and_then (and_then (continuity_within_phases s) continuity_between_phases)
      continuity_cyclic))"
  proof (rule and_then_invariant [where P = ?P, OF 2])
    fix t assume t: "?P t"
    then show "?P (snd (continuity_cyclic t))"
      using keep [OF t] continuity_cyclic_same_layout [of t]
      by (auto intro: continuity_cyclic_lockstep same_layout_trans)
  qed
  then show ?thesis by (simp add: continuity_constraint_def)
qed

section \<open>The nodes of a phase\<close>

lemma nz_slice_length: "b \<le> length v \<Longrightarrow> a \<le> b \<Longrightarrow> length (nz_slice v a b) = b - a"
  by (simp add: nz_slice_def)

lemma shooting_fold:
  assumes "k * (n_x + n_u) + n_x \<le> length Vsym"
  shows "\<exists>Xs Us. fold (shooting_node Vsym n_x n_u) [0..<k] ([], [], 0) =
             (Xs, Us, k * (n_x + n_u)) \<and>
           length Xs = k \<and> length Us = k \<and>
           list_all (\<lambda>x. length x = n_x) Xs \<and> list_all (\<lambda>u. length u = n_u) Us"
  using assms
proof (induction k)
  case 0
  show ?case by simp
next
  case (Suc k)
  from Suc.prems have fits: "k * (n_x + n_u) + n_x + n_u \<le> length Vsym"
    and "k * (n_x + n_u) + n_x \<le> length Vsym"
    by simp_all
  with Suc.IH obtain Xs Us where
    f: "fold (shooting_node Vsym n_x n_u) [0..<k] ([], [], 0) = (Xs, Us, k * (n_x + n_u))"
    and l: "length Xs = k" "length Us = k"
    and a: "list_all (\<lambda>x. length x = n_x) Xs" "list_all (\<lambda>u. length u = n_u) Us"
    by blast
  let ?o = "k * (n_x + n_u)"
  have x: "length (nz_slice Vsym ?o (?o + n_x)) = n_x"
    using fits by (simp add: nz_slice_length)
  have u: "length (nz_slice Vsym (?o + n_x) (?o + n_x + n_u)) = n_u"
    using fits by (simp add: nz_slice_length)
  have "fold (shooting_node Vsym n_x n_u) [0..<Suc k] ([], [], 0) =
      (Xs @ [nz_slice Vsym ?o (?o + n_x)],
       Us @ [nz_slice Vsym (?o + n_x) (?o + n_x + n_u)], Suc k * (n_x + n_u))"
    by (simp add: f shooting_node_def)
  with l a x u show ?case by simp
qed

lemma define_nodes_unfold:
  assumes "fold (shooting_node (MX_sym (V_phase i) (phase_block_size (nlp s ! i)))
             (nx (nlp s ! i)) (nu (nlp s ! i))) [0..<ns (nlp s ! i)] ([], [], 0) = (Xs, Us, off)"
  shows "define_multiple_shooting_nodes_per_phase i s =
     s\<lparr>nlp := (nlp s)[i := (nlp s ! i)
            \<lparr>X := Xs @ [nz_slice (MX_sym (V_phase i) (phase_block_size (nlp s ! i)))
                          off (off + nx (nlp s ! i))],
             U := Us\<rparr>],
       V := V s @ MX_sym (V_phase i) (phase_block_size (nlp s ! i))\<rparr>"
  using assms
  by (simp add: define_multiple_shooting_nodes_per_phase_def Let_def phase_block_size_def
      vertcat_def)

lemma define_nodes_built:
  assumes "i < length (nlp s)"
  shows "phase_built (nlp (define_multiple_shooting_nodes_per_phase i s) ! i)"
proof -
  let ?p = "nlp s ! i"
  let ?V = "MX_sym (V_phase i) (phase_block_size ?p)"
  have len: "ns ?p * (nx ?p + nu ?p) + nx ?p \<le> length ?V"
    by (simp add: MX_sym_def phase_block_size_def algebra_simps)
  from shooting_fold [OF len] obtain Xs Us where
    f: "fold (shooting_node ?V (nx ?p) (nu ?p)) [0..<ns ?p] ([], [], 0) =
          (Xs, Us, ns ?p * (nx ?p + nu ?p))"
    and l: "length Xs = ns ?p" "length Us = ns ?p"
    and a: "list_all (\<lambda>x. length x = nx ?p) Xs"
    by blast
  have x: "length (nz_slice ?V (ns ?p * (nx ?p + nu ?p)) (ns ?p * (nx ?p + nu ?p) + nx ?p)) = nx ?p"
    using len by (simp add: nz_slice_length)
  have "nlp (define_multiple_shooting_nodes_per_phase i s) ! i =
      ?p\<lparr>X := Xs @ [nz_slice ?V (ns ?p * (nx ?p + nu ?p)) (ns ?p * (nx ?p + nu ?p) + nx ?p)],
         U := Us\<rparr>"
    using assms by (simp add: define_nodes_unfold [OF f])
  with l a x show ?thesis by (simp add: phase_built_def nodes_sized_def)
qed

lemma define_nodes_others:
  "j \<noteq> i \<Longrightarrow> nlp (define_multiple_shooting_nodes_per_phase i s) ! j = nlp s ! j"
  by (simp add: define_multiple_shooting_nodes_per_phase_def Let_def split: prod.split)

lemma define_nodes_length:
  "length (nlp (define_multiple_shooting_nodes_per_phase i s)) = length (nlp s)"
  by (simp add: define_multiple_shooting_nodes_per_phase_def Let_def split: prod.split)

lemma nodes_fold_built:
  "n \<le> length (nlp s) \<Longrightarrow>
     length (nlp (fold define_multiple_shooting_nodes_per_phase [0..<n] s)) = length (nlp s) \<and>
     (\<forall>j<n. phase_built (nlp (fold define_multiple_shooting_nodes_per_phase [0..<n] s) ! j))"
proof (induction n)
  case 0
  show ?case by simp
next
  case (Suc n)
  let ?t = "fold define_multiple_shooting_nodes_per_phase [0..<n] s"
  from Suc have len: "length (nlp ?t) = length (nlp s)"
    and built: "\<forall>j<n. phase_built (nlp ?t ! j)" and n: "n < length (nlp ?t)"
    by simp_all
  have "phase_built (nlp (define_multiple_shooting_nodes_per_phase n ?t) ! j)" if "j < Suc n" for j
  proof (cases "j = n")
    case True
    with n show ?thesis by (simp add: define_nodes_built)
  next
    case False
    with that built show ?thesis by (simp add: define_nodes_others)
  qed
  then show ?case by (simp add: define_nodes_length len)
qed

lemma define_variables_built: "list_all phase_built (nlp (define_variables s))"
  using nodes_fold_built [of "length (nlp s)" s]
  by (simp add: define_variables_def define_variable_time_frame list_all_length)

lemma phase_built_sized: "list_all phase_built ps \<Longrightarrow> list_all nodes_sized ps"
  by (simp add: list_all_iff phase_built_def)

lemma prepare_dynamics_built:
  "prepare_dynamics p = Inr q \<Longrightarrow> phase_built q = phase_built p"
  by (auto simp: prepare_dynamics_def phase_built_def nodes_sized_def
      split: OdeSolver.splits if_splits)

lemma list_all_update:
  assumes "list_all P xs" and "P y"
  shows "list_all P (xs[i := y])"
proof -
  have "set (xs[i := y]) \<subseteq> insert y (set xs)" by (rule set_update_subset_insert)
  with assms show ?thesis by (auto simp: list_all_iff)
qed

lemma check_and_prepare_built:
  assumes "list_all phase_built (nlp s)"
  shows "list_all phase_built (nlp (snd (check_and_prepare i s)))"
proof (cases "i < length (nlp s)")
  case False
  with assms show ?thesis
    by (auto simp: check_and_prepare_def Let_def list_update_beyond split: sum.splits)
next
  case True
  with assms have b: "phase_built (nlp s ! i)" by (simp add: list_all_length)
  show ?thesis
  proof (cases "prepare_dynamics (nlp s ! i)")
    case (Inl e)
    with assms show ?thesis by (simp add: check_and_prepare_def Let_def)
  next
    case (Inr q)
    with b have "phase_built q" by (simp add: prepare_dynamics_built)
    with assms have "list_all phase_built ((nlp s)[i := q])" by (rule list_all_update)
    with assms Inr show ?thesis by (simp add: check_and_prepare_def Let_def)
  qed
qed

lemma define_dynamics_built:
  assumes "list_all phase_built (nlp s)"
  shows "list_all phase_built (nlp (snd (define_dynamics s)))"
proof (cases "py_index (nlp s) 0")
  case (Inl e)
  with assms show ?thesis by (simp add: define_dynamics_def)
next
  case (Inr p)
  have "list_all phase_built (nlp (snd (for_each check_and_prepare [0..<length (nlp s)] s)))"
    by (rule for_each_invariant [where P = "\<lambda>t. list_all phase_built (nlp t)"])
       (use assms in \<open>auto intro: check_and_prepare_built\<close>)
  with Inr show ?thesis by (simp add: define_dynamics_def)
qed

section \<open>The program after each pass\<close>

lemma new_ocp_no_rows: "no_rows (new_ocp phases cyclic)"
  by (simp add: no_rows_def new_ocp_def)

lemma no_rows_lockstep: "no_rows s \<Longrightarrow> lockstep s"
  by (simp add: no_rows_def lockstep_def)

lemma before_continuity:
  fixes phases cyclic
  defines "s1 \<equiv> snd (define_dt (new_ocp phases cyclic))"
  defines "r \<equiv> define_dynamics (define_variables s1)"
  shows "OptimalControlProgram_init phases cyclic =
           and_then (and_then r continuity_constraint) add_all_constraints"
    and "no_rows (snd r)"
    and "list_all phase_built (nlp (snd r))"
    and "map phase_descr (nlp (snd r)) = map phase_descr phases"
    and "map phase_descr (nlp (define_variables s1)) = map phase_descr phases"
    and "V (snd r) = V (define_variables s1)"
    and "is_cyclic_constraint (snd r) = cyclic"
proof -
  have dt: "define_dt (new_ocp phases cyclic) = (None, s1)"
    using define_dt_ok [of "new_ocp phases cyclic"]
    by (cases "define_dt (new_ocp phases cyclic)") (simp add: s1_def)
  show "OptimalControlProgram_init phases cyclic =
           and_then (and_then r continuity_constraint) add_all_constraints"
    by (simp add: OptimalControlProgram_init_def dt and_then_def r_def)
  have s1: "no_rows s1" "is_cyclic_constraint s1 = cyclic"
    using define_dt_frame [of "new_ocp phases cyclic"]
    by (simp_all add: s1_def no_rows_def new_ocp_def)
  have d1: "map phase_descr (nlp s1) = map phase_descr phases"
    using define_dt_descr [of "new_ocp phases cyclic"] by (simp add: s1_def new_ocp_def)
  show "no_rows (snd r)"
    using s1 define_variables_frame [of s1] define_dynamics_frame [of "define_variables s1"]
    by (simp add: r_def no_rows_def)
  show "list_all phase_built (nlp (snd r))"
    unfolding r_def by (intro define_dynamics_built define_variables_built)
  show d2: "map phase_descr (nlp (define_variables s1)) = map phase_descr phases"
    by (simp add: define_variables_descr d1)
  show "map phase_descr (nlp (snd r)) = map phase_descr phases"
    by (simp add: r_def define_dynamics_descr d2)
  show "V (snd r) = V (define_variables s1)"
    using define_dynamics_frame [of "define_variables s1"] by (simp add: r_def)
  show "is_cyclic_constraint (snd r) = cyclic"
    using s1 define_variables_frame [of s1] define_dynamics_frame [of "define_variables s1"]
    by (simp add: r_def)
qed

lemma init_refused:
  assumes i: "i < length phases"
    and r: "phase_refused (phase_descr (phases ! 0)) (phase_descr (phases ! i))"
  shows "\<exists>msg. fst (OptimalControlProgram_init phases cyclic) = Some (RuntimeError msg)"
    and "no_rows (snd (OptimalControlProgram_init phases cyclic))"
proof -
  let ?s1 = "snd (define_dt (new_ocp phases cyclic))"
  let ?s2 = "define_variables ?s1"
  let ?r = "define_dynamics ?s2"
  have d: "map phase_descr (nlp ?s2) = map phase_descr phases"
    by (rule before_continuity(5))
  then have len: "length (nlp ?s2) = length phases" by (metis length_map)
  from i have "0 < length phases" by auto
  with d len i have "phase_descr (nlp ?s2 ! 0) = phase_descr (phases ! 0)"
    and "phase_descr (nlp ?s2 ! i) = phase_descr (phases ! i)"
    by (metis nth_map)+
  with r have "phase_refused (phase_descr (nlp ?s2 ! 0)) (phase_descr (nlp ?s2 ! i))"
    by simp
  with i len obtain msg where msg: "fst ?r = Some (RuntimeError msg)"
    using define_dynamics_refuses [of i ?s2] by auto
  have "OptimalControlProgram_init phases cyclic = ?r"
    by (simp add: before_continuity(1) and_then_error [OF msg])
  with msg before_continuity(2) [of phases cyclic]
  show "\<exists>msg. fst (OptimalControlProgram_init phases cyclic) = Some (RuntimeError msg)"
    and "no_rows (snd (OptimalControlProgram_init phases cyclic))"
    by simp_all
qed

lemma init_same_layout:
  "same_layout
     (snd (define_dynamics (define_variables (snd (define_dt (new_ocp phases cyclic))))))
     (snd (OptimalControlProgram_init phases cyclic))"
  unfolding before_continuity(1)
  by (intro and_then_same_layout continuity_constraint_same_layout
      add_all_constraints_same_layout same_layout_refl)

section \<open>The length of the decision vector\<close>

text \<open>
  Claim C2. Whatever the phases are, and however the construction ends, the flat decision
  vector of the program has one entry for each of the \<open>nx * (ns + 1) + nu * ns\<close> node
  variables of each phase, and one more for each phase whose duration is symbolic.
\<close>

theorem decision_vector_length:
  "length (V (snd (OptimalControlProgram_init phases cyclic))) =
     (\<Sum>p\<leftarrow>phases. nx p * (ns p + 1) + nu p * ns p) +
     length (filter (\<lambda>p. isinstance_MX (tf p)) phases)"
proof -
  let ?s0 = "new_ocp phases cyclic"
  let ?s1 = "snd (define_dt ?s0)"
  let ?s2 = "define_variables ?s1"
  have size: "phase_block_size = (\<lambda>p. nx p * (ns p + 1) + nu p * ns p)"
    by (rule ext) (simp only: phase_block_size_def)
  have empty: "V ?s1 = []"
    using define_dt_frame [of ?s0] by (simp add: new_ocp_def)
  have descr: "map phase_descr (nlp ?s1) = map phase_descr phases"
    using define_dt_descr [of ?s0] by (simp add: new_ocp_def)
  have "V (snd (OptimalControlProgram_init phases cyclic)) = V (snd (define_dynamics ?s2))"
    using init_same_layout [of phases cyclic] by (simp add: same_layout_def)
  also have "\<dots> = V ?s2" by (rule before_continuity(6))
  finally have "length (V (snd (OptimalControlProgram_init phases cyclic))) = length (V ?s2)"
    by simp
  also have "\<dots> = length (V ?s1) + sum_list (map phase_block_size (nlp ?s1)) +
      length (filter (\<lambda>p. isinstance_MX (tf p)) (nlp ?s1))"
    by (rule define_variables_V)
  also have "\<dots> = sum_list (map phase_block_size phases) +
      length (filter (\<lambda>p. isinstance_MX (tf p)) phases)"
    by (simp only: empty block_sum_descr [OF descr] filter_free_descr [OF descr]
        list.size add_0)
  finally show ?thesis by (simp only: size)
qed

theorem decision_vector_length_witness:
  "length (V (snd (OptimalControlProgram_init
      [example_phase 2 1 2 (Symbolic (Sym (time_phase 0) 0)) RK [],
       example_phase 2 1 3 (Num 1) RK []] False))) = (2 * 3 + 1 * 2) + (2 * 4 + 1 * 3) + 1"
  using decision_vector_length
    [of "[example_phase 2 1 2 (Symbolic (Sym (time_phase 0) 0)) RK [],
          example_phase 2 1 3 (Num 1) RK []]" False]
  by (simp add: example_phase_def isinstance_MX_def)

section \<open>Free durations and the integration strategies\<close>

text \<open>
  Claim C8. A phase whose duration is symbolic is refused by \<^verbatim>\<open>__prepare_dynamics\<close> with a
  \<^verbatim>\<open>RuntimeError\<close> when its solver is the collocation or the CVODES one, and the
  construction of a program with such a phase ends with a \<^verbatim>\<open>RuntimeError\<close>, before any
  constraint row exists. With the Runge-Kutta solver \<^verbatim>\<open>__prepare_dynamics\<close> returns,
  whatever the duration is.
\<close>

theorem free_duration_needs_rk:
  "(isinstance_MX (tf p) \<and> ode_solver p = COLLOCATION \<longrightarrow>
      prepare_dynamics p = Inl (RuntimeError
        ''OdeSolver.COLLOCATION cannot be used while optimizing the time parameter'')) \<and>
   (isinstance_MX (tf p) \<and> ode_solver p = CVODES \<longrightarrow>
      prepare_dynamics p = Inl (RuntimeError
        ''OdeSolver.CVODES cannot be used while optimizing the time parameter'')) \<and>
   (ode_solver p = RK \<longrightarrow> prepare_dynamics p = Inr (p\<lparr>dynamics := Some RK4\<rparr>)) \<and>
   (p \<in> set phases \<and> isinstance_MX (tf p) \<and> ode_solver p \<noteq> RK \<longrightarrow>
      (\<exists>msg. fst (OptimalControlProgram_init phases cyclic) = Some (RuntimeError msg)) \<and>
      no_rows (snd (OptimalControlProgram_init phases cyclic)))"
proof (intro conjI impI)
  assume "isinstance_MX (tf p) \<and> ode_solver p = COLLOCATION"
  then show "prepare_dynamics p = Inl (RuntimeError
        ''OdeSolver.COLLOCATION cannot be used while optimizing the time parameter'')"
    by (simp add: prepare_dynamics_def)
next
  assume "isinstance_MX (tf p) \<and> ode_solver p = CVODES"
  then show "prepare_dynamics p = Inl (RuntimeError
        ''OdeSolver.CVODES cannot be used while optimizing the time parameter'')"
    by (simp add: prepare_dynamics_def)
next
  assume "ode_solver p = RK"
  then show "prepare_dynamics p = Inr (p\<lparr>dynamics := Some RK4\<rparr>)"
    by (simp add: prepare_dynamics_def)
next
  assume a: "p \<in> set phases \<and> isinstance_MX (tf p) \<and> ode_solver p \<noteq> RK"
  then obtain i where i: "i < length phases" "phases ! i = p"
    by (auto simp: in_set_conv_nth)
  with a have "phase_refused (phase_descr (phases ! 0)) (phase_descr (phases ! i))"
    by (simp add: phase_refused_def phase_descr_def)
  from init_refused [OF i(1) this, of cyclic]
  show "\<exists>msg. fst (OptimalControlProgram_init phases cyclic) = Some (RuntimeError msg)"
    and "no_rows (snd (OptimalControlProgram_init phases cyclic))"
    by simp_all
qed

theorem free_duration_needs_rk_witness:
  "prepare_dynamics (example_phase 2 1 2 (Symbolic (Sym (time_phase 0) 0)) COLLOCATION []) =
     Inl (RuntimeError
       ''OdeSolver.COLLOCATION cannot be used while optimizing the time parameter'') \<and>
   prepare_dynamics (example_phase 2 1 2 (Symbolic (Sym (time_phase 0) 0)) CVODES []) =
     Inl (RuntimeError
       ''OdeSolver.CVODES cannot be used while optimizing the time parameter'') \<and>
   dynamics (projr (prepare_dynamics
     (example_phase 2 1 2 (Symbolic (Sym (time_phase 0) 0)) RK []))) = Some RK4 \<and>
   (\<exists>msg. fst (OptimalControlProgram_init
      [example_phase 2 1 2 (Num 1) RK [],
       example_phase 2 1 2 (Symbolic (Sym (time_phase 1) 0)) CVODES []] False) =
     Some (RuntimeError msg))"
  using
    free_duration_needs_rk
      [of "example_phase 2 1 2 (Symbolic (Sym (time_phase 0) 0)) COLLOCATION []" "[]" False]
    free_duration_needs_rk
      [of "example_phase 2 1 2 (Symbolic (Sym (time_phase 0) 0)) CVODES []"
          "[example_phase 2 1 2 (Num 1) RK [],
            example_phase 2 1 2 (Symbolic (Sym (time_phase 0) 0)) CVODES []]" False]
    free_duration_needs_rk
      [of "example_phase 2 1 2 (Symbolic (Sym (time_phase 1) 0)) CVODES []"
          "[example_phase 2 1 2 (Num 1) RK [],
            example_phase 2 1 2 (Symbolic (Sym (time_phase 1) 0)) CVODES []]" False]
    free_duration_needs_rk
      [of "example_phase 2 1 2 (Symbolic (Sym (time_phase 0) 0)) RK []" "[]" False]
  by (simp add: example_phase_def isinstance_MX_def)

section \<open>Phases of different sizes\<close>

text \<open>
  Claim C9. When two adjacent phases differ in \<open>nx\<close>, the construction of the program ends
  with a \<^verbatim>\<open>RuntimeError\<close>, and the program object it leaves has no constraint row and no
  bound: the guard of \<^verbatim>\<open>__init__\<close> on the sizes stops the construction before the
  continuity pass starts.
\<close>

theorem mismatched_nx_fails_before_continuity:
  assumes "i + 1 < length phases" and "nx (phases ! i) \<noteq> nx (phases ! (i + 1))"
  shows "(\<exists>msg. fst (OptimalControlProgram_init phases cyclic) = Some (RuntimeError msg)) \<and>
         g (snd (OptimalControlProgram_init phases cyclic)) = [] \<and>
         g_bounds_min (snd (OptimalControlProgram_init phases cyclic)) = [] \<and>
         g_bounds_max (snd (OptimalControlProgram_init phases cyclic)) = []"
proof -
  have "\<exists>j<length phases. nx (phases ! 0) \<noteq> nx (phases ! j)"
  proof (cases "nx (phases ! 0) = nx (phases ! i)")
    case True
    with assms(2) have "nx (phases ! 0) \<noteq> nx (phases ! (i + 1))" by simp
    with assms(1) show ?thesis by blast
  next
    case False
    moreover from assms(1) have "i < length phases" by simp
    ultimately show ?thesis by blast
  qed
  then obtain j where j: "j < length phases" "nx (phases ! 0) \<noteq> nx (phases ! j)"
    by blast
  then have "phase_refused (phase_descr (phases ! 0)) (phase_descr (phases ! j))"
    by (simp add: phase_refused_def phase_descr_def)
  from init_refused [OF j(1) this, of cyclic] show ?thesis
    by (simp add: no_rows_def)
qed

theorem mismatched_nx_fails_before_continuity_witness:
  "(0::nat) + 1 < length [example_phase 1 1 2 (Num 1) RK [], example_phase 2 1 2 (Num 1) RK []] \<and>
   nx ([example_phase 1 1 2 (Num 1) RK [], example_phase 2 1 2 (Num 1) RK []] ! 0) \<noteq>
   nx ([example_phase 1 1 2 (Num 1) RK [], example_phase 2 1 2 (Num 1) RK []] ! (0 + 1)) \<and>
   (\<exists>msg. fst (OptimalControlProgram_init
      [example_phase 1 1 2 (Num 1) RK [], example_phase 2 1 2 (Num 1) RK []] True) =
        Some (RuntimeError msg)) \<and>
   g (snd (OptimalControlProgram_init
      [example_phase 1 1 2 (Num 1) RK [], example_phase 2 1 2 (Num 1) RK []] True)) = []"
  using mismatched_nx_fails_before_continuity
    [of 0 "[example_phase 1 1 2 (Num 1) RK [], example_phase 2 1 2 (Num 1) RK []]" True]
  by (simp add: example_phase_def)

text \<open>
  The guard of \<^verbatim>\<open>__init__\<close> is what this rests on. The continuity pass on its own
  compares the sizes of adjacent phases only after the rows within the phases are
  appended: run on two built phases with \<open>nx = 1\<close> and \<open>nx = 2\<close>, it raises with six
  rows in the constraint vector.
\<close>

lemma continuity_pass_checks_sizes_late:
  "fst (continuity_constraint (define_variables (new_ocp
      [example_phase 1 1 2 (Num 1) RK [], example_phase 2 1 2 (Num 1) RK []] False))) =
     Some (RuntimeError ''Phase constraints without same nx is not supported yet'') \<and>
   length (g (snd (continuity_constraint (define_variables (new_ocp
      [example_phase 1 1 2 (Num 1) RK [], example_phase 2 1 2 (Num 1) RK []] False))))) = 6"
  by code_simp

section \<open>Loops that append rows\<close>

lemma add_rows_add_rows: "add_rows r2 n2 (add_rows r1 n1 s) = add_rows (r1 @ r2) (n1 + n2) s"
  by (simp add: add_rows_def replicate_add)

lemma add_rows_nothing: "add_rows [] 0 s = s"
  by (simp add: add_rows_def)

lemma add_rows_same_layout: "same_layout s (add_rows r n s)"
  by (simp add: add_rows_def same_layout_def)

lemma emit_rows: "emit (Inr r) n s = (None, add_rows r n s)"
  by (simp add: emit_Inr add_rows_def)

lemma for_each_appends:
  assumes "\<And>x t. x \<in> set xs \<Longrightarrow> same_layout s t \<Longrightarrow> body x t = (None, add_rows (F x) (N x) t)"
  shows "for_each body xs s = (None, add_rows (concat (map F xs)) (sum_list (map N xs)) s)"
  using assms
proof (induction xs arbitrary: s)
  case Nil
  show ?case by (simp add: add_rows_nothing)
next
  case (Cons x xs)
  let ?t = "add_rows (F x) (N x) s"
  have step: "body x s = (None, ?t)"
    by (rule Cons.prems) (simp_all add: same_layout_refl)
  have "for_each body xs ?t = (None, add_rows (concat (map F xs)) (sum_list (map N xs)) ?t)"
  proof (rule Cons.IH)
    fix y t assume y: "y \<in> set xs" and t: "same_layout ?t t"
    have "same_layout s t" using add_rows_same_layout t by (rule same_layout_trans)
    with y show "body y t = (None, add_rows (F y) (N y) t)" by (intro Cons.prems) simp_all
  qed
  with step show ?case by (simp add: add_rows_add_rows)
qed

section \<open>Coincidence constraints\<close>

lemma sum_list_const: "sum_list (map (\<lambda>_. n) xs) = n * length xs"
  by (induction xs) simp_all

lemma coincidence_rows_length: "length (coincidence_rows p m1 m2 x) = 3"
  by (simp add: coincidence_rows_def Let_def)

lemma concat_coincidence_length:
  "length (concat (map (coincidence_rows p m1 m2) xs)) = 3 * length xs"
  by (induction xs) (simp_all add: coincidence_rows_length)

lemma markers_rows_ok:
  assumes "nb_reduced (dof_mapping p) \<le> length x"
  shows "markers_rows p (PTuple (m1 # m2 # rest)) x = Inr (coincidence_rows p m1 m2 x)"
  using assms
  by (simp add: markers_rows_def mx_slice_to_def then_with_def py_getitem_def py_index_def
      Let_def marker_def mx_minus_def coincidence_rows_def)

lemma markers_to_pair_rows:
  assumes "list_all (\<lambda>x. nb_reduced (dof_mapping p) \<le> length x) xs"
  shows "markers_to_pair p xs (PTuple (m1 # m2 # rest)) s =
     (None, add_rows (concat (map (coincidence_rows p m1 m2) xs)) (3 * length xs) s)"
proof -
  have "for_each (\<lambda>x. emit (markers_rows p (PTuple (m1 # m2 # rest)) x) 3) xs s =
      (None, add_rows (concat (map (coincidence_rows p m1 m2) xs))
         (sum_list (map (\<lambda>_. 3) xs)) s)"
  proof (rule for_each_appends)
    fix x and t :: ocp
    assume "x \<in> set xs"
    with assms have "nb_reduced (dof_mapping p) \<le> length x" by (simp add: list_all_iff)
    then show "emit (markers_rows p (PTuple (m1 # m2 # rest)) x) 3 t =
        (None, add_rows (coincidence_rows p m1 m2 x) 3 t)"
      by (simp add: markers_rows_ok emit_rows)
  qed
  then show ?thesis by (simp add: markers_to_pair_def sum_list_const)
qed

lemma select_all_nodes: "select_nodes p ALL_NODES = Inr (X p, U p)"
  by (simp add: select_nodes_def)

text \<open>
  Claim C6. A coincidence constraint, at whatever nodes its selector gives, appends for
  each selected node, in order, the three rows of the difference of the two markers on
  the expanded reduced coordinates of that node, and three bound pairs \<open>[0, 0]\<close>; the
  reduced coordinates are the first \<^verbatim>\<open>nb_reduced\<close> entries of the node, which the node
  must have. At all nodes of a phase built with \<open>ns = 2\<close> these are nine rows and nine
  bound pairs.
\<close>

theorem coincidence_three_rows_per_node:
  "(select_nodes p inst = Inr (xs, us) \<and>
    list_all (\<lambda>x. nb_reduced (dof_mapping p) \<le> length x) xs \<longrightarrow>
      add_constraint p (MARKERS_TO_PAIR, inst, PTuple (m1 # m2 # rest)) s =
        (None, add_rows (concat (map (coincidence_rows p m1 m2) xs)) (3 * length xs) s) \<and>
      length (concat (map (coincidence_rows p m1 m2) xs)) = 3 * length xs) \<and>
   (phase_built p \<and> ns p = 2 \<and> nb_reduced (dof_mapping p) \<le> nx p \<longrightarrow>
      add_constraint p (MARKERS_TO_PAIR, ALL_NODES, PTuple [PInt 0, PInt 1]) s =
        (None, add_rows (concat (map (coincidence_rows p (PInt 0) (PInt 1)) (X p))) 9 s) \<and>
      length (concat (map (coincidence_rows p (PInt 0) (PInt 1)) (X p))) = 9)"
proof (intro conjI impI)
  assume a: "select_nodes p inst = Inr (xs, us) \<and>
    list_all (\<lambda>x. nb_reduced (dof_mapping p) \<le> length x) xs"
  then show "add_constraint p (MARKERS_TO_PAIR, inst, PTuple (m1 # m2 # rest)) s =
        (None, add_rows (concat (map (coincidence_rows p m1 m2) xs)) (3 * length xs) s)"
    by (simp add: add_constraint_def markers_to_pair_rows)
  show "length (concat (map (coincidence_rows p m1 m2) xs)) = 3 * length xs"
    by (rule concat_coincidence_length)
next
  assume b: "phase_built p \<and> ns p = 2 \<and> nb_reduced (dof_mapping p) \<le> nx p"
  then have len: "length (X p) = 3"
    and fits: "list_all (\<lambda>x. nb_reduced (dof_mapping p) \<le> length x) (X p)"
    by (auto simp: phase_built_def nodes_sized_def list_all_iff)
  from fits have "markers_to_pair p (X p) (PTuple [PInt 0, PInt 1]) s =
      (None, add_rows (concat (map (coincidence_rows p (PInt 0) (PInt 1)) (X p)))
         (3 * length (X p)) s)"
    by (rule markers_to_pair_rows)
  with len show "add_constraint p (MARKERS_TO_PAIR, ALL_NODES, PTuple [PInt 0, PInt 1]) s =
        (None, add_rows (concat (map (coincidence_rows p (PInt 0) (PInt 1)) (X p))) 9 s)"
    by (simp add: add_constraint_def select_all_nodes)
  from len show "length (concat (map (coincidence_rows p (PInt 0) (PInt 1)) (X p))) = 9"
    by (simp add: concat_coincidence_length)
qed

theorem coincidence_three_rows_per_node_witness:
  "phase_built (hd (nlp (example_ocp coincidence_example False))) \<and>
   ns (hd (nlp (example_ocp coincidence_example False))) = 2 \<and>
   nb_reduced (dof_mapping (hd (nlp (example_ocp coincidence_example False)))) \<le>
     nx (hd (nlp (example_ocp coincidence_example False))) \<and>
   length (g (snd (add_constraint (hd (nlp (example_ocp coincidence_example False)))
     (MARKERS_TO_PAIR, ALL_NODES, PTuple [PInt 0, PInt 1])
     (example_ocp coincidence_example False)))) = 9 \<and>
   g_bounds_min (snd (add_constraint (hd (nlp (example_ocp coincidence_example False)))
     (MARKERS_TO_PAIR, ALL_NODES, PTuple [PInt 0, PInt 1])
     (example_ocp coincidence_example False))) = [0, 0, 0, 0, 0, 0, 0, 0, 0] \<and>
   g_bounds_max (snd (add_constraint (hd (nlp (example_ocp coincidence_example False)))
     (MARKERS_TO_PAIR, ALL_NODES, PTuple [PInt 0, PInt 1])
     (example_ocp coincidence_example False))) = [0, 0, 0, 0, 0, 0, 0, 0, 0]"
proof -
  let ?s = "example_ocp coincidence_example False"
  let ?p = "hd (nlp ?s)"
  have h: "phase_built ?p" "ns ?p = 2" "nb_reduced (dof_mapping ?p) \<le> nx ?p"
    by code_simp+
  have e: "g ?s = []" "g_bounds_min ?s = []" "g_bounds_max ?s = []"
    by code_simp+
  from coincidence_three_rows_per_node
    [of ?p ALL_NODES "X ?p" "U ?p" "PInt 0" "PInt 1" "[]" ?s] h
  have "add_constraint ?p (MARKERS_TO_PAIR, ALL_NODES, PTuple [PInt 0, PInt 1]) ?s =
        (None, add_rows (concat (map (coincidence_rows ?p (PInt 0) (PInt 1)) (X ?p))) 9 ?s)"
    and "length (concat (map (coincidence_rows ?p (PInt 0) (PInt 1)) (X ?p))) = 9"
    by blast+
  with e h show ?thesis
    by (simp add: add_rows_def numeral_eq_Suc)
qed

section \<open>The rows of the continuity pass\<close>

lemma py_index_nat: "i < length xs \<Longrightarrow> py_index xs (int i) = Inr (xs ! i)"
  by (simp add: py_index_def)

lemma py_index_first: "xs \<noteq> [] \<Longrightarrow> py_index xs 0 = Inr (hd xs)"
  by (cases xs) (simp_all add: py_index_def)

lemma py_index_last: "xs \<noteq> [] \<Longrightarrow> py_index xs (- 1) = Inr (last xs)"
proof -
  assume ne: "xs \<noteq> []"
  then have "nat (int (length xs) + - 1) = length xs - 1" by (cases xs) simp_all
  with ne show ?thesis
    by (cases xs) (simp_all add: py_index_def last_conv_nth)
qed

lemma mx_minus_same: "length a = length b \<Longrightarrow> mx_minus a b = Inr (map2 Minus a b)"
  by (simp add: mx_minus_def)

lemma length_concat_map:
  "(\<And>x. x \<in> set xs \<Longrightarrow> length (f x) = n x) \<Longrightarrow>
     length (concat (map f xs)) = sum_list (map n xs)"
  by (induction xs) simp_all

lemma built_state_node:
  "phase_built p \<Longrightarrow> k \<le> ns p \<Longrightarrow> length (X p ! k) = nx p"
  by (simp add: phase_built_def nodes_sized_def list_all_length)

lemma built_last_node: "phase_built p \<Longrightarrow> length (last (X p)) = nx p \<and> X p \<noteq> []"
proof -
  assume b: "phase_built p"
  then have ne: "X p \<noteq> []" by (auto simp: phase_built_def)
  then have "last (X p) \<in> set (X p)" by simp
  with b ne show ?thesis by (simp add: phase_built_def nodes_sized_def list_all_iff)
qed

lemma built_first_node: "phase_built p \<Longrightarrow> length (hd (X p)) = nx p \<and> X p \<noteq> []"
proof -
  assume b: "phase_built p"
  then have ne: "X p \<noteq> []" by (auto simp: phase_built_def)
  then have "hd (X p) \<in> set (X p)" by simp
  with b ne show ?thesis by (simp add: phase_built_def nodes_sized_def list_all_iff)
qed

lemma continuity_node_rows:
  assumes "phase_built p" and "k < ns p"
  shows "continuity_node p k t =
     (None, add_rows (map2 Minus (dynamics_call (X p ! k) (U p ! k)) (X p ! (k + 1))) (nx p) t)"
proof -
  from assms have x0: "py_index (X p) (int k) = Inr (X p ! k)"
    and u0: "py_index (U p) (int k) = Inr (U p ! k)"
    by (simp_all add: phase_built_def py_index_nat)
  from assms have "py_index (X p) (int (k + 1)) = Inr (X p ! (k + 1))"
    by (intro py_index_nat) (simp add: phase_built_def)
  then have x1: "py_index (X p) (int k + 1) = Inr (X p ! (k + 1))"
    by (simp add: add.commute)
  from assms have "length (X p ! k) = nx p" "length (X p ! (k + 1)) = nx p"
    by (simp_all add: built_state_node)
  then have "mx_minus (dynamics_call (X p ! k) (U p ! k)) (X p ! (k + 1)) =
      Inr (map2 Minus (dynamics_call (X p ! k) (U p ! k)) (X p ! (k + 1)))"
    by (intro mx_minus_same) (simp add: dynamics_call_def)
  with x0 u0 x1 show ?thesis
    by (simp add: continuity_node_def then_with_def Let_def emit_rows)
qed

lemma continuity_phase_rows:
  assumes "phase_built p"
  shows "for_each (continuity_node p) [0..<ns p] t =
     (None, add_rows (intra_rows p) (ns p * nx p) t)"
proof -
  have "for_each (continuity_node p) [0..<ns p] t =
      (None, add_rows
         (concat (map (\<lambda>k. map2 Minus (dynamics_call (X p ! k) (U p ! k)) (X p ! (k + 1)))
            [0..<ns p]))
         (sum_list (map (\<lambda>_. nx p) [0..<ns p])) t)"
    by (rule for_each_appends) (simp add: continuity_node_rows [OF assms])
  then show ?thesis by (simp add: intra_rows_def sum_list_const mult.commute)
qed

lemma intra_rows_length:
  assumes "phase_built p"
  shows "length (intra_rows p) = ns p * nx p"
proof -
  have "length (concat (map (\<lambda>k. map2 Minus (dynamics_call (X p ! k) (U p ! k)) (X p ! (k + 1)))
      [0..<ns p])) = sum_list (map (\<lambda>_. nx p) [0..<ns p])"
  proof (rule length_concat_map)
    fix k assume "k \<in> set [0..<ns p]"
    then show "length (map2 Minus (dynamics_call (X p ! k) (U p ! k)) (X p ! (k + 1))) = nx p"
      using assms by (simp add: dynamics_call_def built_state_node)
  qed
  then show ?thesis by (simp add: intra_rows_def sum_list_const mult.commute)
qed

lemma continuity_within_rows:
  assumes "list_all phase_built (nlp s)"
  shows "continuity_within_phases s =
     (None, add_rows (concat (map intra_rows (nlp s)))
        (\<Sum>p\<leftarrow>nlp s. ns p * nx p) s)"
  unfolding continuity_within_phases_def
proof (rule for_each_appends)
  fix p and t :: ocp
  assume "p \<in> set (nlp s)"
  with assms have "phase_built p" by (simp add: list_all_iff)
  then show "for_each (continuity_node p) [0..<ns p] t =
      (None, add_rows (intra_rows p) (ns p * nx p) t)"
    by (rule continuity_phase_rows)
qed

lemma continuity_pair_rows:
  assumes "list_all phase_built (nlp t)" and "i + 1 < length (nlp t)"
    and "nx (nlp t ! i) = nx (nlp t ! (i + 1))"
  shows "continuity_phase_pair i t =
     (None, add_rows (map2 Minus (last (X (nlp t ! i))) (hd (X (nlp t ! (i + 1)))))
        (nx (nlp t ! i)) t)"
proof -
  let ?p = "nlp t ! i" and ?q = "nlp t ! (i + 1)"
  from assms(1,2) have p: "phase_built ?p" and q: "phase_built ?q"
    by (simp_all add: list_all_length)
  from built_last_node [OF p] have l: "py_index (X ?p) (- 1) = Inr (last (X ?p))"
    and ll: "length (last (X ?p)) = nx ?p"
    by (simp_all add: py_index_last)
  from built_first_node [OF q] have f: "py_index (X ?q) 0 = Inr (hd (X ?q))"
    and fl: "length (hd (X ?q)) = nx ?q"
    by (simp_all add: py_index_first)
  from ll fl assms(3) have "mx_minus (last (X ?p)) (hd (X ?q)) =
      Inr (map2 Minus (last (X ?p)) (hd (X ?q)))"
    by (intro mx_minus_same) simp
  with l f assms(3) show ?thesis
    by (simp add: continuity_phase_pair_def Let_def then_with_def emit_rows)
qed

lemma adjacent_nx_equal_nth:
  "adjacent_nx_equal ps \<Longrightarrow> i + 1 < length ps \<Longrightarrow> nx (ps ! i) = nx (ps ! (i + 1))"
  by (simp add: adjacent_nx_equal_def list_all_iff)

lemma adjacent_nx_equal_first:
  assumes "adjacent_nx_equal ps"
  shows "i < length ps \<Longrightarrow> nx (ps ! i) = nx (ps ! 0)"
proof (induction i)
  case 0
  show ?case by simp
next
  case (Suc i)
  then have "nx (ps ! i) = nx (ps ! 0)" by simp
  moreover from Suc.prems have "nx (ps ! i) = nx (ps ! (i + 1))"
    by (intro adjacent_nx_equal_nth [OF assms]) simp
  ultimately show ?case by simp
qed

lemma continuity_between_rows:
  assumes "list_all phase_built (nlp s)" and "adjacent_nx_equal (nlp s)"
  shows "continuity_between_phases s =
     (None, add_rows (inter_rows (nlp s))
        (\<Sum>i\<leftarrow>[0..<length (nlp s) - 1]. nx (nlp s ! i)) s)"
  unfolding continuity_between_phases_def inter_rows_def
proof (rule for_each_appends)
  fix i and t :: ocp
  assume i: "i \<in> set [0..<length (nlp s) - 1]" and t: "same_layout s t"
  from t have eq: "nlp t = nlp s" by (simp add: same_layout_def)
  from i have lt: "i + 1 < length (nlp s)" by simp
  have "continuity_phase_pair i t =
     (None, add_rows (map2 Minus (last (X (nlp t ! i))) (hd (X (nlp t ! (i + 1)))))
        (nx (nlp t ! i)) t)"
    by (rule continuity_pair_rows)
       (use assms lt in \<open>simp_all add: eq adjacent_nx_equal_nth\<close>)
  then show "continuity_phase_pair i t =
     (None, add_rows (map2 Minus (last (X (nlp s ! i))) (hd (X (nlp s ! (i + 1)))))
        (nx (nlp s ! i)) t)"
    by (simp add: eq)
qed

lemma inter_rows_length:
  assumes "list_all phase_built ps" and "adjacent_nx_equal ps"
  shows "length (inter_rows ps) = (\<Sum>i\<leftarrow>[0..<length ps - 1]. nx (ps ! i))"
  unfolding inter_rows_def
proof (rule length_concat_map)
  fix i assume "i \<in> set [0..<length ps - 1]"
  then have lt: "i + 1 < length ps" by simp
  with assms(1) have "phase_built (ps ! i)" "phase_built (ps ! (i + 1))"
    by (simp_all add: list_all_length)
  then have "length (last (X (ps ! i))) = nx (ps ! i)"
    and "length (hd (X (ps ! (i + 1)))) = nx (ps ! (i + 1))"
    by (simp_all add: built_last_node built_first_node)
  with adjacent_nx_equal_nth [OF assms(2) lt]
  show "length (map2 Minus (last (X (ps ! i))) (hd (X (ps ! (i + 1))))) = nx (ps ! i)"
    by simp
qed

lemma sum_nx_butlast:
  "(\<Sum>i\<leftarrow>[0..<length ps - 1]. nx (ps ! i)) = (\<Sum>p\<leftarrow>butlast ps. nx p)"
proof -
  have "map (\<lambda>i. nx (ps ! i)) [0..<length ps - 1] = map nx (butlast ps)"
    by (rule nth_equalityI) (simp_all add: nth_butlast)
  then show ?thesis by simp
qed

lemma continuity_cyclic_rows:
  assumes "list_all phase_built (nlp s)" and "adjacent_nx_equal (nlp s)"
    and "is_cyclic_constraint s" and "nlp s \<noteq> []"
  shows "continuity_cyclic s = (None, add_rows (cyclic_rows (nlp s)) (nx (hd (nlp s))) s)"
    and "length (cyclic_rows (nlp s)) = nx (hd (nlp s))"
proof -
  let ?p0 = "hd (nlp s)" and ?pl = "last (nlp s)"
  from assms(4) have i0: "py_index (nlp s) 0 = Inr ?p0" and il: "py_index (nlp s) (- 1) = Inr ?pl"
    by (simp_all add: py_index_first py_index_last)
  from assms(4) have "?pl = nlp s ! (length (nlp s) - 1)" and "?p0 = nlp s ! 0"
    by (simp_all add: last_conv_nth hd_conv_nth)
  with assms(4) adjacent_nx_equal_first [OF assms(2), of "length (nlp s) - 1"]
  have same: "nx ?p0 = nx ?pl" by simp
  from assms(1,4) have "phase_built ?p0" "phase_built ?pl"
    by (simp_all add: list_all_iff)
  then have l: "py_index (X ?pl) (- 1) = Inr (last (X ?pl))" "length (last (X ?pl)) = nx ?pl"
    and f: "py_index (X ?p0) 0 = Inr (hd (X ?p0))" "length (hd (X ?p0)) = nx ?p0"
    by (simp_all add: built_last_node built_first_node py_index_last py_index_first)
  from l(2) f(2) same have m: "mx_minus (last (X ?pl)) (hd (X ?p0)) =
      Inr (map2 Minus (last (X ?pl)) (hd (X ?p0)))"
    by (intro mx_minus_same) simp
  from assms(3) i0 il same l(1) f(1) m
  show "continuity_cyclic s = (None, add_rows (cyclic_rows (nlp s)) (nx (hd (nlp s))) s)"
    by (simp add: continuity_cyclic_def then_with_def emit_rows cyclic_rows_def)
  from l(2) f(2) same show "length (cyclic_rows (nlp s)) = nx (hd (nlp s))"
    by (simp add: cyclic_rows_def)
qed

lemma add_rows_keeps:
  "nlp (add_rows r n s) = nlp s" "is_cyclic_constraint (add_rows r n s) = is_cyclic_constraint s"
  by (simp_all add: add_rows_def)

lemma continuity_constraint_rows:
  assumes "list_all phase_built (nlp s)" and "adjacent_nx_equal (nlp s)"
    and "is_cyclic_constraint s \<longrightarrow> nlp s \<noteq> []"
  shows "continuity_constraint s =
           (None, add_rows
              (concat (map intra_rows (nlp s)) @ inter_rows (nlp s) @
               (if is_cyclic_constraint s then cyclic_rows (nlp s) else []))
              ((\<Sum>p\<leftarrow>nlp s. ns p * nx p) + (\<Sum>p\<leftarrow>butlast (nlp s). nx p) +
               (if is_cyclic_constraint s then nx (hd (nlp s)) else 0)) s)"
proof -
  let ?A = "concat (map intra_rows (nlp s))" and ?B = "inter_rows (nlp s)"
  let ?C = "if is_cyclic_constraint s then cyclic_rows (nlp s) else []"
  let ?a = "\<Sum>p\<leftarrow>nlp s. ns p * nx p" and ?b = "\<Sum>p\<leftarrow>butlast (nlp s). nx p"
  let ?c = "if is_cyclic_constraint s then nx (hd (nlp s)) else 0"
  let ?t1 = "add_rows ?A ?a s"
  let ?t2 = "add_rows ?B ?b ?t1"
  have 1: "continuity_within_phases s = (None, ?t1)"
    by (rule continuity_within_rows [OF assms(1)])
  have "continuity_between_phases ?t1 =
      (None, add_rows (inter_rows (nlp ?t1))
         (\<Sum>i\<leftarrow>[0..<length (nlp ?t1) - 1]. nx (nlp ?t1 ! i)) ?t1)"
    by (rule continuity_between_rows) (simp_all add: add_rows_keeps assms)
  then have 2: "continuity_between_phases ?t1 = (None, ?t2)"
    by (simp only: add_rows_keeps sum_nx_butlast)
  have 3: "continuity_cyclic ?t2 = (None, add_rows ?C ?c ?t2)"
  proof (cases "is_cyclic_constraint s")
    case False
    then show ?thesis by (simp add: continuity_cyclic_def add_rows_keeps add_rows_nothing)
  next
    case True
    with assms(3) have ne: "nlp s \<noteq> []" by simp
    have "continuity_cyclic ?t2 = (None, add_rows (cyclic_rows (nlp ?t2)) (nx (hd (nlp ?t2))) ?t2)"
      by (rule continuity_cyclic_rows(1)) (simp_all add: add_rows_keeps assms True ne)
    with True show ?thesis by (simp add: add_rows_keeps)
  qed
  have "continuity_constraint s = (None, add_rows ?C ?c ?t2)"
    by (simp add: continuity_constraint_def and_then_def 1 2 3)
  then show ?thesis
    by (simp only: add_rows_add_rows append_assoc)
qed

text \<open>
  Claim C3. On phases as the decision-vector pass builds them, with equal \<open>nx\<close> in adjacent
  phases (and at least one phase when the cycle is asked for), the continuity pass returns
  and appends, in this order: for every phase its \<open>ns * nx\<close> rows, interval after interval;
  then the \<open>nx\<close> rows of every pair of adjacent phases; then, when the cycle is asked for,
  \<open>nx\<close> rows more; and as many bound pairs \<open>[0, 0]\<close> as rows.
\<close>

theorem continuity_rows_count_and_order:
  assumes "list_all phase_built (nlp s)" and "adjacent_nx_equal (nlp s)"
    and "is_cyclic_constraint s \<longrightarrow> nlp s \<noteq> []"
  shows "continuity_constraint s =
           (None, add_rows
              (concat (map intra_rows (nlp s)) @ inter_rows (nlp s) @
               (if is_cyclic_constraint s then cyclic_rows (nlp s) else []))
              ((\<Sum>p\<leftarrow>nlp s. ns p * nx p) + (\<Sum>p\<leftarrow>butlast (nlp s). nx p) +
               (if is_cyclic_constraint s then nx (hd (nlp s)) else 0)) s) \<and>
         (\<forall>p\<in>set (nlp s). length (intra_rows p) = ns p * nx p) \<and>
         length (concat (map intra_rows (nlp s))) = (\<Sum>p\<leftarrow>nlp s. ns p * nx p) \<and>
         length (inter_rows (nlp s)) = (\<Sum>p\<leftarrow>butlast (nlp s). nx p) \<and>
         (is_cyclic_constraint s \<longrightarrow> length (cyclic_rows (nlp s)) = nx (hd (nlp s)))"
proof -
  have each: "\<forall>p\<in>set (nlp s). length (intra_rows p) = ns p * nx p"
    using assms(1) by (simp add: list_all_iff intra_rows_length)
  have "length (concat (map intra_rows (nlp s))) = sum_list (map (\<lambda>p. ns p * nx p) (nlp s))"
    by (rule length_concat_map) (use each in simp)
  moreover have "length (inter_rows (nlp s)) = (\<Sum>p\<leftarrow>butlast (nlp s). nx p)"
    using inter_rows_length [OF assms(1,2)] by (simp only: sum_nx_butlast)
  moreover have "is_cyclic_constraint s \<longrightarrow> length (cyclic_rows (nlp s)) = nx (hd (nlp s))"
    using continuity_cyclic_rows(2) [OF assms(1,2)] assms(3) by blast
  ultimately show ?thesis using continuity_constraint_rows [OF assms] each by blast
qed

theorem continuity_rows_count_and_order_witness:
  "list_all phase_built (nlp (example_ocp two_phase_example True)) \<and>
   adjacent_nx_equal (nlp (example_ocp two_phase_example True)) \<and>
   is_cyclic_constraint (example_ocp two_phase_example True) \<and>
   nlp (example_ocp two_phase_example True) \<noteq> [] \<and>
   fst (continuity_constraint (example_ocp two_phase_example True)) = None \<and>
   length (concat (map intra_rows (nlp (example_ocp two_phase_example True)))) = 2 * 2 + 3 * 2 \<and>
   length (inter_rows (nlp (example_ocp two_phase_example True))) = 2 \<and>
   length (cyclic_rows (nlp (example_ocp two_phase_example True))) = 2 \<and>
   g (snd (continuity_constraint (example_ocp two_phase_example True))) =
     concat (map intra_rows (nlp (example_ocp two_phase_example True))) @
     inter_rows (nlp (example_ocp two_phase_example True)) @
     cyclic_rows (nlp (example_ocp two_phase_example True)) \<and>
   g_bounds_min (snd (continuity_constraint (example_ocp two_phase_example True))) =
     replicate 14 0 \<and>
   g_bounds_max (snd (continuity_constraint (example_ocp two_phase_example True))) =
     replicate 14 0"
proof -
  let ?s = "example_ocp two_phase_example True"
  have h: "list_all phase_built (nlp ?s)" "adjacent_nx_equal (nlp ?s)"
    "is_cyclic_constraint ?s" "nlp ?s \<noteq> []"
    by code_simp+
  have e: "g ?s = []" "g_bounds_min ?s = []" "g_bounds_max ?s = []"
    by code_simp+
  have n: "(\<Sum>p\<leftarrow>nlp ?s. ns p * nx p) = 10" "(\<Sum>p\<leftarrow>butlast (nlp ?s). nx p) = 2"
    "nx (hd (nlp ?s)) = 2"
    by code_simp+
  from continuity_rows_count_and_order [of ?s] h n
  have "continuity_constraint ?s =
      (None, add_rows (concat (map intra_rows (nlp ?s)) @ inter_rows (nlp ?s) @
         cyclic_rows (nlp ?s)) (10 + 2 + 2) ?s)"
    and "length (concat (map intra_rows (nlp ?s))) = 10"
    and "length (inter_rows (nlp ?s)) = 2"
    and "length (cyclic_rows (nlp ?s)) = 2"
    by simp_all
  with h e show ?thesis by (simp add: add_rows_def)
qed

lemma for_each_ok:
  assumes "\<And>x t. x \<in> set xs \<Longrightarrow> fst (body x t) = None"
  shows "fst (for_each body xs s) = None"
  using assms
proof (induction xs arbitrary: s)
  case Nil
  show ?case by simp
next
  case (Cons x xs)
  have "fst (body x s) = None" by (rule Cons.prems) simp
  then obtain s' where "body x s = (None, s')" by (cases "body x s") simp
  moreover have "fst (for_each body xs s') = None"
    by (rule Cons.IH) (simp add: Cons.prems)
  ultimately show ?case by simp
qed

section \<open>What the first passes keep of the constraints\<close>

lemma map_constraints_update:
  "constraints q = constraints (ps ! i) \<Longrightarrow> map constraints (ps[i := q]) = map constraints ps"
proof (cases "i < length ps")
  case True
  assume "constraints q = constraints (ps ! i)"
  with True show ?thesis by (simp add: map_update list_update_same_conv)
next
  case False
  then show ?thesis by (simp add: list_update_beyond)
qed

lemma constraints_set_dt:
  "length ps = length ds \<Longrightarrow>
     map constraints (map2 (\<lambda>p d. p\<lparr>dt := Some d\<rparr>) ps ds) = map constraints ps"
  by (induction ps ds rule: list_induct2) simp_all

lemma define_dt_constraints:
  "map constraints (nlp (snd (define_dt s))) = map constraints (nlp s)"
proof -
  obtain ds where ds: "length ds = length (nlp s)"
    and r: "define_dt s = (None, s\<lparr>nlp := map2 (\<lambda>p d. p\<lparr>dt := Some d\<rparr>) (nlp s) ds\<rparr>)"
    using define_dt_result [of s] by blast
  have "nlp (snd (define_dt s)) = map2 (\<lambda>p d. p\<lparr>dt := Some d\<rparr>) (nlp s) ds"
    by (simp add: r)
  then show ?thesis using constraints_set_dt [of "nlp s" ds] ds by simp
qed

lemma define_nodes_constraints:
  "map constraints (nlp (define_multiple_shooting_nodes_per_phase i s)) =
     map constraints (nlp s)"
  by (simp add: define_multiple_shooting_nodes_per_phase_def Let_def map_constraints_update
      split: prod.split)

lemma define_variables_constraints:
  "map constraints (nlp (define_variables s)) = map constraints (nlp s)"
proof -
  have "map constraints (nlp (fold define_multiple_shooting_nodes_per_phase
      [0..<length (nlp s)] s)) = map constraints (nlp s)"
    by (rule fold_invariant [where P = "\<lambda>t. map constraints (nlp t) = map constraints (nlp s)"])
       (simp_all add: define_nodes_constraints)
  then show ?thesis by (simp add: define_variables_def define_variable_time_frame)
qed

lemma prepare_dynamics_constraints:
  "prepare_dynamics p = Inr q \<Longrightarrow> constraints q = constraints p"
  by (auto simp: prepare_dynamics_def split: OdeSolver.splits if_splits)

lemma check_and_prepare_constraints:
  "map constraints (nlp (snd (check_and_prepare i s))) = map constraints (nlp s)"
  by (auto simp: check_and_prepare_def Let_def map_constraints_update prepare_dynamics_constraints
      split: sum.splits)

lemma define_dynamics_constraints:
  "map constraints (nlp (snd (define_dynamics s))) = map constraints (nlp s)"
proof (cases "py_index (nlp s) 0")
  case (Inl e)
  then show ?thesis by (simp add: define_dynamics_def)
next
  case (Inr p)
  have "map constraints (nlp (snd (for_each check_and_prepare [0..<length (nlp s)] s))) =
      map constraints (nlp s)"
    by (rule for_each_invariant) (simp_all add: check_and_prepare_constraints)
  with Inr show ?thesis by (simp add: define_dynamics_def)
qed

lemma before_continuity_constraints:
  "map constraints (nlp (example_ocp phases cyclic)) = map constraints phases"
  using define_dt_constraints [of "new_ocp phases cyclic"]
  by (simp add: example_ocp_def define_dynamics_constraints define_variables_constraints
      new_ocp_def)

lemma for_each_single: "for_each body [x] s = body x s"
  by (cases "body x s") (auto split: option.splits)

lemma map_single: "map f xs = [y] \<Longrightarrow> \<exists>q. xs = [q] \<and> f q = y"
  by (cases xs) auto

lemma single_rk_phase_passes:
  assumes "ode_solver p = RK"
  shows "fst (define_dynamics (define_variables (snd (define_dt (new_ocp [p] cyclic))))) = None"
proof -
  define s2 where "s2 = define_variables (snd (define_dt (new_ocp [p] cyclic)))"
  have "map phase_descr (nlp s2) = map phase_descr [p]"
    unfolding s2_def by (rule before_continuity(5))
  then have "map phase_descr (nlp s2) = [phase_descr p]" by simp
  then obtain q where q: "nlp s2 = [q]" "phase_descr q = phase_descr p"
    using map_single by blast
  with assms have rk: "ode_solver q = RK" by (simp add: phase_descr_def)
  have ne: "py_index (nlp s2) 0 = Inr q" by (simp add: q(1) py_index_def)
  have one: "check_and_prepare 0 s2 = (None, s2\<lparr>nlp := [q\<lparr>dynamics := Some RK4\<rparr>]\<rparr>)"
    by (simp add: check_and_prepare_def Let_def prepare_dynamics_def q(1) rk)
  have len: "[0..<length (nlp s2)] = [0]" by (simp add: q(1))
  have "define_dynamics s2 = for_each check_and_prepare [0..<length (nlp s2)] s2"
    by (simp only: define_dynamics_def ne sum.case)
  also have "\<dots> = check_and_prepare 0 s2" by (simp only: len for_each_single)
  finally have "fst (define_dynamics s2) = None" by (simp add: one)
  then show ?thesis by (simp only: s2_def)
qed

lemma mid_raises: "select_nodes p MID = Inl (AttributeError ''dict object has no attribute ns'')"
  by (simp add: select_nodes_def getattr_ns_def then_with_def)

lemma init_mid_fails:
  assumes "ode_solver p = RK" and "constraints p = (ty, MID, policy) # rest"
  shows "fst (OptimalControlProgram_init [p] False) =
     Some (AttributeError ''dict object has no attribute ns'')"
proof -
  define r where "r = define_dynamics (define_variables (snd (define_dt (new_ocp [p] False))))"
  define s where "s = snd r"
  have ok: "fst r = None"
    unfolding r_def by (rule single_rk_phase_passes [OF assms(1)])
  have built: "list_all phase_built (nlp s)"
    unfolding s_def r_def by (rule before_continuity(3))
  have cyc: "is_cyclic_constraint s \<longrightarrow> nlp s \<noteq> []"
    unfolding s_def r_def using before_continuity(7) [of "[p]" False] by simp
  have "map phase_descr (nlp s) = [phase_descr p]"
    unfolding s_def r_def using before_continuity(4) [of "[p]" False] by simp
  then obtain q where q: "nlp s = [q]" using map_single by blast
  have "map constraints (nlp s) = [constraints p]"
    unfolding s_def r_def using before_continuity_constraints [of "[p]" False]
    by (simp add: example_ocp_def)
  with q have qc: "constraints q = constraints p" by simp
  have adj: "adjacent_nx_equal (nlp s)" by (simp add: q adjacent_nx_equal_def)
  from continuity_constraint_rows [OF built adj cyc] obtain rows n where
    cont: "continuity_constraint s = (None, add_rows rows n s)"
    by blast
  define t where "t = add_rows rows n s"
  have nt: "nlp t = [q]" by (simp add: t_def add_rows_keeps q)
  have "add_constraints q t = (Some (AttributeError ''dict object has no attribute ns''), t)"
    by (simp add: add_constraints_def qc assms(2) add_constraint_def mid_raises)
  then have last: "add_all_constraints t =
      (Some (AttributeError ''dict object has no attribute ns''), t)"
    by (simp add: add_all_constraints_def nt)
  have 1: "OptimalControlProgram_init [p] False =
      and_then (and_then r continuity_constraint) add_all_constraints"
    unfolding r_def by (rule before_continuity(1))
  have 2: "and_then r continuity_constraint = (None, t)"
    using and_then_ok [OF ok, of continuity_constraint] cont by (simp only: s_def t_def)
  have 3: "and_then (None, t) add_all_constraints = add_all_constraints t"
    by (simp add: and_then_def)
  show ?thesis by (simp only: 1 2 3 last fst_conv)
qed

section \<open>The node selectors\<close>

text \<open>
  Claim C4 asks that the \<^verbatim>\<open>MID\<close> selector fails for an even \<open>ns\<close> and selects the node
  \<open>ns // 2 + 1\<close> for an odd one. The branch reads \<^verbatim>\<open>nlp.ns\<close> where every other access is
  \<^verbatim>\<open>nlp["ns"]\<close>, so it ends with an \<^verbatim>\<open>AttributeError\<close> for every phase, before the
  parity is looked at: with \<open>ns = 11\<close> no node is selected, although the node \<open>6\<close> exists,
  and the construction of the program ends with that error.
\<close>

theorem mid_selector_always_raises:
  "select_nodes p MID = Inl (AttributeError ''dict object has no attribute ns'') \<and>
   add_constraint p (ty, MID, policy) s =
     (Some (AttributeError ''dict object has no attribute ns''), s) \<and>
   fst (OptimalControlProgram_init
     [example_phase 2 1 11 (Num 1) RK [(MARKERS_TO_PAIR, MID, PTuple [PInt 0, PInt 1])]]
     False) = Some (AttributeError ''dict object has no attribute ns'') \<and>
   py_index (X (built_phase (example_phase 2 1 11 (Num 1) RK []))) (11 div 2 + 1) =
     Inr (X (built_phase (example_phase 2 1 11 (Num 1) RK [])) ! 6)"
proof (intro conjI)
  show "select_nodes p MID = Inl (AttributeError ''dict object has no attribute ns'')"
    by (rule mid_raises)
  show "add_constraint p (ty, MID, policy) s =
     (Some (AttributeError ''dict object has no attribute ns''), s)"
    by (simp add: add_constraint_def mid_raises)
  show "fst (OptimalControlProgram_init
     [example_phase 2 1 11 (Num 1) RK [(MARKERS_TO_PAIR, MID, PTuple [PInt 0, PInt 1])]]
     False) = Some (AttributeError ''dict object has no attribute ns'')"
    by (rule init_mid_fails) (simp_all add: example_phase_def)
  show "py_index (X (built_phase (example_phase 2 1 11 (Num 1) RK []))) (11 div 2 + 1) =
     Inr (X (built_phase (example_phase 2 1 11 (Num 1) RK [])) ! 6)"
    by code_simp
qed

lemma py_slice_inner:
  assumes "n \<le> length xs" and "length xs \<le> n + 1"
  shows "py_slice xs 1 (int n - 1) = take (n - 2) (drop 1 xs)"
proof (cases "n = 0")
  case True
  with assms have "length xs \<le> 1" by simp
  with True show ?thesis by (simp add: py_slice_def Let_def)
next
  case False
  with assms(1) have "min (int n - 1) (int (length xs)) = int n - 1"
    and "min 1 (int (length xs)) = 1"
    by simp_all
  moreover have "nat (int n - 1 - 1) = n - 2" by simp
  ultimately show ?thesis using False by (simp add: py_slice_def Let_def)
qed

lemma intermediates_selection:
  assumes "phase_built p"
  shows "select_nodes p INTERMEDIATES =
     Inr (map (\<lambda>k. X p ! k) [1..<ns p - 1], map (\<lambda>k. U p ! k) [1..<ns p - 1])"
proof -
  from assms have lx: "length (X p) = ns p + 1" and lu: "length (U p) = ns p"
    by (simp_all add: phase_built_def)
  have x: "py_slice (X p) 1 (int (ns p) - 1) = map (\<lambda>k. X p ! k) [1..<ns p - 1]"
    by (rule nth_equalityI) (simp_all add: py_slice_inner lx)
  have u: "py_slice (U p) 1 (int (ns p) - 1) = map (\<lambda>k. U p ! k) [1..<ns p - 1]"
    by (rule nth_equalityI) (simp_all add: py_slice_inner lu)
  show ?thesis by (simp add: select_nodes_def x u)
qed

text \<open>
  Claim C5 asks that the \<^verbatim>\<open>INTERMEDIATES\<close> selector gives every state node but the first
  and the last, the nodes \<open>1\<close> to \<open>ns - 1\<close>. The slice \<^verbatim>\<open>nlp["X"][1 : nlp["ns"] - 1]\<close>
  stops one node earlier: on a phase of three intervals, whose state nodes are
  \<open>0, 1, 2, 3\<close>, it gives the node \<open>1\<close> alone and leaves the node \<open>2\<close> out.
\<close>

theorem intermediates_leaves_out_node_before_last:
  "fst (projr (select_nodes (built_phase (example_phase 2 1 3 (Num 1) RK [])) INTERMEDIATES)) =
     [X (built_phase (example_phase 2 1 3 (Num 1) RK [])) ! 1] \<and>
   map (\<lambda>k. X (built_phase (example_phase 2 1 3 (Num 1) RK [])) ! k) [1..<3] =
     [X (built_phase (example_phase 2 1 3 (Num 1) RK [])) ! 1,
      X (built_phase (example_phase 2 1 3 (Num 1) RK [])) ! 2] \<and>
   X (built_phase (example_phase 2 1 3 (Num 1) RK [])) ! 2 \<notin>
     set (fst (projr (select_nodes (built_phase (example_phase 2 1 3 (Num 1) RK []))
       INTERMEDIATES))) \<and>
   length (X (built_phase (example_phase 2 1 3 (Num 1) RK []))) = 4"
  by code_simp

section \<open>The contact-force constraint\<close>

lemma contact_force_returns:
  assumes "length Us \<le> length Xs"
  shows "fst (contact_force_inequality p Xs Us policy s) = None"
  unfolding contact_force_inequality_def
proof (rule for_each_ok)
  fix i and t :: ocp
  assume "i \<in> set [0..<length Us]"
  with assms have "py_index Xs (int i) = Inr (Xs ! i)" "py_index Us (int i) = Inr (Us ! i)"
    by (simp_all add: py_index_nat)
  then show "fst (case py_index Xs (int i) of
        Inl e \<Rightarrow> (Some e, t)
      | Inr x \<Rightarrow> (case py_index Us (int i) of Inl e \<Rightarrow> (Some e, t) | Inr u \<Rightarrow> (None, t))) = None"
    by simp
qed

lemma contact_force_no_rows:
  "length Us \<le> length Xs \<Longrightarrow> contact_force_inequality p Xs Us policy s = (None, s)"
  by (simp add: prod_eq_iff contact_force_returns contact_force_inequality_unchanged)

lemma contact_force_all_nodes:
  "length (U p) \<le> length (X p) \<Longrightarrow>
     add_constraint p (CONTACT_FORCE_GREATER_THAN, ALL_NODES, policy) s = (None, s)"
  by (simp add: add_constraint_def select_all_nodes contact_force_no_rows)

text \<open>
  Claim C7 asks for one inequality row, with its bound pair, per selected node with a
  control. \<^verbatim>\<open>__contact_force_inequality\<close> evaluates the contact forces and drops them:
  it leaves the program object as it was, so a contact-force constraint at all nodes of
  a phase of two intervals adds no row and no bound.
\<close>

theorem contact_force_appends_nothing:
  "snd (contact_force_inequality p Xs Us policy s) = s \<and>
   snd (add_constraint p (CONTACT_FORCE_GREATER_THAN, inst, policy) s) = s \<and>
   add_constraint (built_phase (example_phase 2 1 2 (Num 1) RK []))
     (CONTACT_FORCE_GREATER_THAN, ALL_NODES, PTuple [PInt 0, PInt 0]) s = (None, s)"
proof (intro conjI)
  show "snd (contact_force_inequality p Xs Us policy s) = s"
    by (rule contact_force_inequality_unchanged)
  show "snd (add_constraint p (CONTACT_FORCE_GREATER_THAN, inst, policy) s) = s"
    by (cases "select_nodes p inst")
       (auto simp: add_constraint_def contact_force_inequality_unchanged)
  have "length (U (built_phase (example_phase 2 1 2 (Num 1) RK []))) \<le>
      length (X (built_phase (example_phase 2 1 2 (Num 1) RK [])))"
    by code_simp
  then show "add_constraint (built_phase (example_phase 2 1 2 (Num 1) RK []))
     (CONTACT_FORCE_GREATER_THAN, ALL_NODES, PTuple [PInt 0, PInt 0]) s = (None, s)"
    by (rule contact_force_all_nodes)
qed

section \<open>The operands of a proportional row\<close>

text \<open>
  A float that is a whole number indexes as that number, and a tuple of two numbers as a
  factor gives two rows.
\<close>

lemma whole_float_index: "mx_getitem [a, b] (PFloat 1) = Inr b"
  by (simp add: mx_getitem_def py_index_def)

lemma tuple_factor_rows:
  "mx_times (PTuple [PInt 1, PInt 2]) e = Inr [Times (PInt 1) e, Times (PInt 2) e]"
  by (simp add: mx_times_def is_number_def)

section \<open>The constraint vector and its bounds\<close>

lemma mx_times_number: "is_number c \<Longrightarrow> mx_times c e = Inr [Times c e]"
  by (cases c) (simp_all add: mx_times_def is_number_def)

lemma numeric_triple_entry:
  assumes "numeric_triple t" and "py_getitem t i = Inr c"
  shows "is_number c"
proof (cases t)
  case (PTuple fs)
  with assms(2) have "c \<in> set fs" by (auto simp: py_getitem_def dest: py_index_in_set)
  with assms(1) PTuple show ?thesis by (simp add: numeric_triple_def list_all_iff)
next
  case (PInt k)
  with assms(2) show ?thesis by (simp add: py_getitem_def)
next
  case (PFloat r)
  with assms(2) show ?thesis by (simp add: py_getitem_def)
qed

lemma proportional_row_length:
  assumes "numeric_triple elem" and "proportional_row p elem v = Inr r"
  shows "length r = 1"
proof -
  from assms(2) obtain va c vb cvb where c: "py_getitem elem 2 = Inr c"
    and t: "mx_times c vb = Inr cvb" and m: "mx_minus [va] cvb = Inr r"
    unfolding proportional_row_def Let_def by (auto dest!: then_with_Inr)
  from assms(1) c have "is_number c" by (rule numeric_triple_entry)
  with t have "cvb = [Times c vb]" by (simp add: mx_times_number)
  with m show ?thesis by (auto simp: mx_minus_def)
qed

lemma proportional_node_lockstep:
  assumes "numeric_triple elem" and "lockstep t"
  shows "lockstep (snd (emit (proportional_row p elem v) 1 t))"
proof (rule emit_lockstep)
  show "length r = 1" if "proportional_row p elem v = Inr r" for r
    using assms(1) that by (rule proportional_row_length)
  show "lockstep t" by (rule assms(2))
qed

lemma proportional_nodes_lockstep:
  assumes "numeric_triple elem" and "lockstep t"
  shows "lockstep (snd (for_each (\<lambda>v. emit (proportional_row p elem v) 1) Vs t))"
proof (rule for_each_invariant [where P = lockstep])
  show "lockstep t" by (rule assms(2))
next
  fix v and u :: ocp
  assume "lockstep u"
  with assms(1) show "lockstep (snd (emit (proportional_row p elem v) 1 u))"
    by (rule proportional_node_lockstep)
qed

lemma proportional_variable_lockstep:
  assumes "numeric_policy policy" and "lockstep s"
  shows "lockstep (snd (proportional_variable p Vs policy s))"
proof (cases "py_getitem policy 0")
  case (Inl e)
  with assms(2) show ?thesis by (simp add: proportional_variable_def)
next
  case (Inr first)
  show ?thesis
  proof (cases "isinstance_tuple first")
    case True
    with assms(1) Inr have all: "list_all numeric_triple (tuple_items policy)"
      by (simp add: numeric_policy_def)
    have "lockstep (snd (for_each
        (\<lambda>elem. for_each (\<lambda>v. emit (proportional_row p elem v) 1) Vs) (tuple_items policy) s))"
    proof (rule for_each_invariant [where P = lockstep])
      show "lockstep s" by (rule assms(2))
    next
      fix elem and t :: ocp
      assume "elem \<in> set (tuple_items policy)" and t: "lockstep t"
      with all have "numeric_triple elem" by (simp add: list_all_iff)
      then show "lockstep (snd (for_each (\<lambda>v. emit (proportional_row p elem v) 1) Vs t))"
        using t by (rule proportional_nodes_lockstep)
    qed
    with Inr True show ?thesis by (simp add: proportional_variable_def)
  next
    case False
    with assms(1) Inr have "numeric_triple policy" by (simp add: numeric_policy_def)
    then have "lockstep (snd (for_each (\<lambda>v. emit (proportional_row p policy v) 1) Vs s))"
      using assms(2) by (rule proportional_nodes_lockstep)
    with Inr False show ?thesis by (simp add: proportional_variable_def)
  qed
qed

lemma add_constraint_lockstep:
  assumes "numeric_constraint elem" and "lockstep s"
  shows "lockstep (snd (add_constraint p elem s))"
proof -
  obtain ty inst policy where elem: "elem = (ty, inst, policy)" by (cases elem) auto
  show ?thesis
  proof (cases "select_nodes p inst")
    case (Inl e)
    with assms(2) show ?thesis by (simp add: add_constraint_def elem)
  next
    case (Inr xu)
    obtain x u where xu: "xu = (x, u)" by (cases xu) auto
    show ?thesis
    proof (cases ty)
      case MARKERS_TO_PAIR
      with assms(2) show ?thesis
        by (simp add: add_constraint_def elem Inr xu markers_to_pair_lockstep)
    next
      case PROPORTIONAL_Q
      with assms(1) have "numeric_policy policy" by (simp add: numeric_constraint_def elem)
      with assms(2) PROPORTIONAL_Q show ?thesis
        by (simp add: add_constraint_def elem Inr xu proportional_variable_lockstep)
    next
      case PROPORTIONAL_CONTROL
      with assms(1) have "numeric_policy policy" by (simp add: numeric_constraint_def elem)
      with assms(2) PROPORTIONAL_CONTROL show ?thesis
        by (simp add: add_constraint_def elem Inr xu proportional_variable_lockstep)
    next
      case CONTACT_FORCE_GREATER_THAN
      with assms(2) show ?thesis
        by (simp add: add_constraint_def elem Inr xu contact_force_inequality_unchanged)
    qed
  qed
qed

lemma add_constraints_lockstep:
  assumes "numeric_constraints p" and "lockstep s"
  shows "lockstep (snd (add_constraints p s))"
  unfolding add_constraints_def
proof (rule for_each_invariant [where P = lockstep])
  show "lockstep s" by (rule assms(2))
next
  fix elem and t :: ocp
  assume "elem \<in> set (constraints p)" and t: "lockstep t"
  with assms(1) have "numeric_constraint elem"
    by (simp add: numeric_constraints_def list_all_iff)
  then show "lockstep (snd (add_constraint p elem t))" using t by (rule add_constraint_lockstep)
qed

lemma add_all_constraints_lockstep:
  assumes "list_all numeric_constraints (nlp s)" and "lockstep s"
  shows "lockstep (snd (add_all_constraints s))"
proof -
  let ?P = "\<lambda>t. same_layout s t \<and> lockstep t"
  have "?P (snd (for_each (\<lambda>i t. add_constraints (nlp t ! i) t) [0..<length (nlp s)] s))"
  proof (rule for_each_invariant [where P = ?P])
    show "?P s" using assms(2) by (simp add: same_layout_refl)
  next
    fix i and t :: ocp
    assume i: "i \<in> set [0..<length (nlp s)]" and t: "?P t"
    from t have eq: "nlp t = nlp s" by (simp add: same_layout_def)
    with i assms(1) have "numeric_constraints (nlp t ! i)" by (simp add: list_all_length)
    then have "lockstep (snd (add_constraints (nlp t ! i) t))"
      using t by (intro add_constraints_lockstep) simp_all
    moreover have "same_layout s (snd (add_constraints (nlp t ! i) t))"
    proof (rule same_layout_trans)
      show "same_layout s t" using t by simp
      show "same_layout t (snd (add_constraints (nlp t ! i) t))"
        by (rule add_constraints_same_layout)
    qed
    ultimately show "?P (snd (add_constraints (nlp t ! i) t))" by simp
  qed
  then show ?thesis by (simp add: add_all_constraints_def)
qed

lemma numeric_constraints_kept:
  assumes "map constraints ps = map constraints qs"
  shows "list_all numeric_constraints ps = list_all numeric_constraints qs"
proof -
  have eq: "list_all numeric_constraints rs =
      list_all (list_all numeric_constraint) (map constraints rs)" for rs
    by (simp add: list_all_iff numeric_constraints_def)
  have "list_all numeric_constraints ps =
      list_all (list_all numeric_constraint) (map constraints ps)"
    by (rule eq)
  also have "\<dots> = list_all (list_all numeric_constraint) (map constraints qs)"
    by (simp only: assms)
  also have "\<dots> = list_all numeric_constraints qs" by (rule eq [symmetric])
  finally show ?thesis .
qed

lemma init_lockstep:
  assumes "list_all numeric_constraints phases"
  shows "lockstep (snd (OptimalControlProgram_init phases cyclic))"
proof -
  let ?r = "define_dynamics (define_variables (snd (define_dt (new_ocp phases cyclic))))"
  let ?P = "\<lambda>t. list_all nodes_sized (nlp t) \<and> list_all numeric_constraints (nlp t) \<and>
     lockstep t"
  have "map constraints (nlp (snd ?r)) = map constraints phases"
    using before_continuity_constraints [of phases cyclic] by (simp add: example_ocp_def)
  then have "list_all numeric_constraints (nlp (snd ?r)) = list_all numeric_constraints phases"
    by (rule numeric_constraints_kept)
  with assms have num: "list_all numeric_constraints (nlp (snd ?r))" by simp
  have 0: "?P (snd ?r)"
    using before_continuity(2,3) [of phases cyclic] num
    by (simp add: no_rows_lockstep phase_built_sized)
  have 1: "?P (snd (and_then ?r continuity_constraint))"
  proof (rule and_then_invariant [where P = ?P, OF 0])
    fix t :: ocp assume t: "?P t"
    have "nlp (snd (continuity_constraint t)) = nlp t"
      using continuity_constraint_same_layout [of t] by (simp add: same_layout_def)
    with t show "?P (snd (continuity_constraint t))"
      by (simp add: continuity_constraint_lockstep)
  qed
  have 2: "lockstep (snd (add_all_constraints t))" if "?P t" for t :: ocp
    using that by (intro add_all_constraints_lockstep) simp_all
  have "?P (snd (and_then ?r continuity_constraint))" by (rule 1)
  then have "lockstep (snd (and_then (and_then ?r continuity_constraint) add_all_constraints))"
    using 2 by (cases "and_then ?r continuity_constraint")
      (auto simp: and_then_def split: option.splits)
  then show ?thesis by (simp only: before_continuity(1))
qed

text \<open>
  Claim C1, as the code has it. The constraint vector and the two bound vectors have the
  same length after each operation that appends constraints, when they had before it:
  after the continuity pass (on phases whose state nodes have \<open>nx\<close> entries, as the
  decision-vector pass builds them), after the coincidence and the contact-force
  expansion, and after a proportional expansion whose triples are made of numbers; so
  after all the constraints of a phase, and in the program object that the construction
  leaves, when the proportional constraints are such; this also when the operation ends
  with an error. A proportional triple with a tuple in the place of the coefficient is
  outside this: the next theorem shows what it does.
\<close>

theorem constraint_vector_lockstep:
  "(lockstep s \<longrightarrow>
      (list_all nodes_sized (nlp s) \<longrightarrow> lockstep (snd (continuity_constraint s))) \<and>
      lockstep (snd (markers_to_pair p Xs policy s)) \<and>
      (numeric_policy policy \<longrightarrow> lockstep (snd (proportional_variable p Xs policy s))) \<and>
      lockstep (snd (contact_force_inequality p Xs Us policy s)) \<and>
      (numeric_constraints p \<longrightarrow> lockstep (snd (add_constraints p s)))) \<and>
   (list_all numeric_constraints phases \<longrightarrow>
      lockstep (snd (OptimalControlProgram_init phases cyclic)))"
  by (simp add: continuity_constraint_lockstep markers_to_pair_lockstep
      proportional_variable_lockstep contact_force_inequality_unchanged
      add_constraints_lockstep init_lockstep)

theorem constraint_vector_lockstep_witness:
  "lockstep (example_ocp proportional_example True) \<and>
   list_all nodes_sized (nlp (example_ocp proportional_example True)) \<and>
   numeric_policy (PTuple [PInt 0, PInt 1, PFloat (1 / 2)]) \<and>
   numeric_constraints (hd (nlp (example_ocp proportional_example True))) \<and>
   list_all numeric_constraints proportional_example \<and>
   lockstep (snd (continuity_constraint (example_ocp proportional_example True))) \<and>
   length (g (snd (continuity_constraint (example_ocp proportional_example True)))) = 6 \<and>
   lockstep (snd (proportional_variable (hd (nlp (example_ocp proportional_example True)))
     (X (hd (nlp (example_ocp proportional_example True))))
     (PTuple [PInt 0, PInt 1, PFloat (1 / 2)]) (example_ocp proportional_example True))) \<and>
   length (g (snd (proportional_variable (hd (nlp (example_ocp proportional_example True)))
     (X (hd (nlp (example_ocp proportional_example True))))
     (PTuple [PInt 0, PInt 1, PFloat (1 / 2)]) (example_ocp proportional_example True)))) = 3 \<and>
   lockstep (snd (add_constraints (hd (nlp (example_ocp proportional_example True)))
     (example_ocp proportional_example True))) \<and>
   length (g_bounds_max (snd (add_constraints (hd (nlp (example_ocp proportional_example True)))
     (example_ocp proportional_example True)))) = 1 \<and>
   lockstep (snd (OptimalControlProgram_init proportional_example True)) \<and>
   length (g (snd (OptimalControlProgram_init proportional_example True))) = 7"
proof -
  let ?s = "example_ocp proportional_example True"
  let ?p = "hd (nlp ?s)"
  let ?policy = "PTuple [PInt 0, PInt 1, PFloat (1 / 2)]"
  have h: "lockstep ?s" "list_all nodes_sized (nlp ?s)" "numeric_policy ?policy"
    "numeric_constraints ?p" "list_all numeric_constraints proportional_example"
    by code_simp+
  from constraint_vector_lockstep [of ?s ?p "X ?p" ?policy "[]" proportional_example True] h
  have "lockstep (snd (continuity_constraint ?s))"
    and "lockstep (snd (proportional_variable ?p (X ?p) ?policy ?s))"
    and "lockstep (snd (add_constraints ?p ?s))"
    and "lockstep (snd (OptimalControlProgram_init proportional_example True))"
    by blast+
  moreover have "length (g (snd (continuity_constraint ?s))) = 6"
    and "length (g (snd (proportional_variable ?p (X ?p) ?policy ?s))) = 3"
    and "length (g_bounds_max (snd (add_constraints ?p ?s))) = 1"
    and "length (g (snd (OptimalControlProgram_init proportional_example True))) = 7"
    by code_simp+
  ultimately show ?thesis using h by blast
qed

text \<open>
  The claim as it is stated, for every constraint, fails. With the tuple \<^verbatim>\<open>(1, 2)\<close> in the
  place of the coefficient of a proportional constraint, the product with the coefficient
  has two rows, and so has the row expression, while \<^verbatim>\<open>__proportional_variable\<close> appends
  one bound pair: on the program object before the constraints (four continuity rows,
  four bound pairs) the expansion returns with six rows and five bound pairs, and so does
  the construction of the program.
\<close>

theorem tuple_coefficient_breaks_lockstep:
  "lockstep (snd (continuity_constraint (example_ocp tuple_coefficient_example False))) \<and>
   fst (add_constraints (hd (nlp (example_ocp tuple_coefficient_example False)))
     (snd (continuity_constraint (example_ocp tuple_coefficient_example False)))) = None \<and>
   \<not> lockstep (snd (add_constraints (hd (nlp (example_ocp tuple_coefficient_example False)))
     (snd (continuity_constraint (example_ocp tuple_coefficient_example False))))) \<and>
   fst (OptimalControlProgram_init tuple_coefficient_example False) = None \<and>
   length (g (snd (OptimalControlProgram_init tuple_coefficient_example False))) = 6 \<and>
   length (g_bounds_min (snd (OptimalControlProgram_init tuple_coefficient_example False))) = 5 \<and>
   length (g_bounds_max (snd (OptimalControlProgram_init tuple_coefficient_example False))) = 5 \<and>
   \<not> lockstep (snd (OptimalControlProgram_init tuple_coefficient_example False))"
  by code_simp

section \<open>The step length of every phase\<close>

lemma phase_dt_value: "phase_dt p = Inr (step_length p)"
proof -
  have "max (int (ns p)) 1 = int (max (ns p) 1)" by simp
  moreover have "int (max (ns p) 1) \<noteq> 0" by simp
  ultimately show ?thesis
    by (cases "tf p") (simp_all add: phase_dt_def truediv_def step_length_def)
qed

lemma dt_list_value: "dt_list ps = Inr (map step_length ps)"
  by (induction ps) (simp_all add: phase_dt_value)

lemma map2_same: "map2 f xs (map h xs) = map (\<lambda>x. f x (h x)) xs"
  by (induction xs) simp_all

lemma define_dt_value:
  "define_dt s = (None, s\<lparr>nlp := map (\<lambda>p. p\<lparr>dt := Some (step_length p)\<rparr>) (nlp s)\<rparr>)"
  by (simp add: define_dt_def dt_list_value add_dt_to_nlp_def map2_same)

lemma map_dt_update:
  "dt q = dt (ps ! i) \<Longrightarrow> map dt (ps[i := q]) = map dt ps"
proof (cases "i < length ps")
  case True
  assume "dt q = dt (ps ! i)"
  with True show ?thesis by (simp add: map_update list_update_same_conv)
next
  case False
  then show ?thesis by (simp add: list_update_beyond)
qed

lemma define_nodes_dt:
  "map dt (nlp (define_multiple_shooting_nodes_per_phase i s)) = map dt (nlp s)"
  by (simp add: define_multiple_shooting_nodes_per_phase_def Let_def map_dt_update
      split: prod.split)

lemma define_variables_dt: "map dt (nlp (define_variables s)) = map dt (nlp s)"
proof -
  have "map dt (nlp (fold define_multiple_shooting_nodes_per_phase
      [0..<length (nlp s)] s)) = map dt (nlp s)"
    by (rule fold_invariant [where P = "\<lambda>t. map dt (nlp t) = map dt (nlp s)"])
       (simp_all add: define_nodes_dt)
  then show ?thesis by (simp add: define_variables_def define_variable_time_frame)
qed

lemma prepare_dynamics_dt: "prepare_dynamics p = Inr q \<Longrightarrow> dt q = dt p"
  by (auto simp: prepare_dynamics_def split: OdeSolver.splits if_splits)

lemma check_and_prepare_dt: "map dt (nlp (snd (check_and_prepare i s))) = map dt (nlp s)"
  by (auto simp: check_and_prepare_def Let_def map_dt_update prepare_dynamics_dt
      split: sum.splits)

lemma define_dynamics_dt: "map dt (nlp (snd (define_dynamics s))) = map dt (nlp s)"
proof (cases "py_index (nlp s) 0")
  case (Inl e)
  then show ?thesis by (simp add: define_dynamics_def)
next
  case (Inr p)
  have "map dt (nlp (snd (for_each check_and_prepare [0..<length (nlp s)] s))) =
      map dt (nlp s)"
    by (rule for_each_invariant) (simp_all add: check_and_prepare_dt)
  with Inr show ?thesis by (simp add: define_dynamics_def)
qed

lemma init_dt:
  "map dt (nlp (snd (OptimalControlProgram_init phases cyclic))) =
     map (\<lambda>p. Some (step_length p)) phases"
proof -
  define s1 where "s1 = snd (define_dt (new_ocp phases cyclic))"
  define s3 where "s3 = snd (define_dynamics (define_variables s1))"
  have "nlp s1 = map (\<lambda>p. p\<lparr>dt := Some (step_length p)\<rparr>) phases"
    by (simp add: s1_def define_dt_value new_ocp_def)
  then have 1: "map dt (nlp s1) = map (\<lambda>p. Some (step_length p)) phases"
    by (simp add: comp_def)
  have 3: "map dt (nlp s3) = map dt (nlp s1)"
    by (simp add: s3_def define_dynamics_dt define_variables_dt)
  have "nlp (snd (OptimalControlProgram_init phases cyclic)) = nlp s3"
    using init_same_layout [of phases cyclic] by (simp add: same_layout_def s3_def s1_def)
  then show ?thesis by (simp only: 3 1)
qed

text \<open>
  Claim C10. The step length of a phase is \<^verbatim>\<open>tf / max(ns, 1)\<close>: the division returns this
  quotient for every phase, the list comprehension returns the quotients of all the
  phases, and these are what the construction stores as \<^verbatim>\<open>nlp["dt"]\<close> and what the program
  object holds at the end, however the construction ends. No division by zero is raised,
  also when \<open>ns = 0\<close> (where a numeric duration is divided by one); for \<open>ns \<ge> 1\<close> it is the
  division of the duration by \<open>ns\<close>.
\<close>

theorem dt_never_divides_by_zero:
  "phase_dt p = Inr (step_length p) \<and>
   dt_list ps = Inr (map step_length ps) \<and>
   define_dt s = (None, s\<lparr>nlp := map (\<lambda>p. p\<lparr>dt := Some (step_length p)\<rparr>) (nlp s)\<rparr>) \<and>
   map dt (nlp (snd (OptimalControlProgram_init phases cyclic))) =
     map (\<lambda>p. Some (step_length p)) phases \<and>
   (\<exists>v. phase_dt p = Inr v) \<and>
   (\<exists>ds. dt_list ps = Inr ds \<and> length ds = length ps) \<and>
   (1 \<le> ns p \<longrightarrow> phase_dt p = truediv (tf p) (int (ns p))) \<and>
   (1 \<le> ns p \<and> tf p = Num r \<longrightarrow> phase_dt p = Inr (Num (r / real (ns p)))) \<and>
   (ns p = 0 \<and> tf p = Num r \<longrightarrow> phase_dt p = Inr (Num r))"
proof (intro conjI impI)
  show "phase_dt p = Inr (step_length p)" by (rule phase_dt_value)
  show "dt_list ps = Inr (map step_length ps)" by (rule dt_list_value)
  show "define_dt s = (None, s\<lparr>nlp := map (\<lambda>p. p\<lparr>dt := Some (step_length p)\<rparr>) (nlp s)\<rparr>)"
    by (rule define_dt_value)
  show "map dt (nlp (snd (OptimalControlProgram_init phases cyclic))) =
     map (\<lambda>p. Some (step_length p)) phases"
    by (rule init_dt)
  show "\<exists>v. phase_dt p = Inr v" by (rule phase_dt_returns)
  show "\<exists>ds. dt_list ps = Inr ds \<and> length ds = length ps" by (rule dt_list_returns)
next
  assume "1 \<le> ns p"
  then have "max (int (ns p)) 1 = int (ns p)" by simp
  then show "phase_dt p = truediv (tf p) (int (ns p))" by (simp add: phase_dt_def)
next
  assume a: "1 \<le> ns p \<and> tf p = Num r"
  then have "max (int (ns p)) 1 = int (ns p)" by simp
  with a show "phase_dt p = Inr (Num (r / real (ns p)))"
    by (simp add: phase_dt_def truediv_def)
next
  assume "ns p = 0 \<and> tf p = Num r"
  then show "phase_dt p = Inr (Num r)" by (simp add: phase_dt_def truediv_def)
qed

theorem dt_never_divides_by_zero_witness:
  "phase_dt (example_phase 2 1 0 (Num 3) RK []) = Inr (Num 3) \<and>
   phase_dt (example_phase 2 1 4 (Num 3) RK []) = Inr (Num (3 / 4)) \<and>
   dt_list [example_phase 2 1 0 (Num 3) RK [], example_phase 2 1 4 (Num 3) RK []] =
     Inr [Num 3, Num (3 / 4)] \<and>
   map dt (nlp (snd (OptimalControlProgram_init
     [example_phase 2 1 0 (Num 3) RK [], example_phase 2 1 4 (Num 3) RK []] False))) =
     [Some (Num 3), Some (Num (3 / 4))] \<and>
   truediv (Num 3) 0 = Inl (ZeroDivisionError ''division by zero'')"
  using dt_never_divides_by_zero [of "example_phase 2 1 0 (Num 3) RK []"
      "[example_phase 2 1 0 (Num 3) RK [], example_phase 2 1 4 (Num 3) RK []]"
      "new_ocp [] False"
      "[example_phase 2 1 0 (Num 3) RK [], example_phase 2 1 4 (Num 3) RK []]" False 3]
        dt_never_divides_by_zero [of "example_phase 2 1 4 (Num 3) RK []" "[]"
      "new_ocp [] False" "[]" False 3]
  by (simp add: example_phase_def truediv_def step_length_def)

end
